theory Spec2Isabelle
  imports
    Complex_Main
    "HOL-Library.Char_ord"
    "HOL-Library.List_Lexorder"
    "HOL-Library.Product_Lexorder"
    "HOL-Library.AList"
begin

section \<open>Values of the Python program\<close>

text \<open>
  The development embeds \<^verbatim>\<open>update_indices.py\<close>. A Python \<^verbatim>\<open>str\<close> is a
  \<^typ>\<open>string\<close>; one \<^typ>\<open>char\<close> stands for one code point below 256, and strings are
  compared as Python compares them (by code point, a proper prefix first). A \<^verbatim>\<open>dict\<close> is an
  association list kept in insertion order: \<^const>\<open>AList.update\<close> overwrites the value of a
  key in place and appends a new key at the end, as assignment to a Python dict does.
  Exceptions are values: a function that can raise returns \<open>pyerror + 'a\<close>.

  A Python \<^verbatim>\<open>float\<close> is modelled by the exact real it denotes, or by one of the three
  special values; the rounding of binary floating point is not part of the model.
\<close>

datatype pyerror = ValueError | KeyError | AttributeError | OSError

datatype pyfloat = Fin real | PInf | NInf | NaN

type_synonym pairs = "(string \<times> pyfloat) list"

text \<open>\<^verbatim>\<open>abs(a - b) > 1e-12\<close>: a comparison with a NaN is false, and so is the one on
  the difference of two infinities of the same sign, which is a NaN.\<close>

fun changed_beyond_tol :: "pyfloat \<Rightarrow> pyfloat \<Rightarrow> bool" where
  "changed_beyond_tol (Fin a) (Fin b) = (\<bar>a - b\<bar> > 1 / 10 ^ 12)"
| "changed_beyond_tol NaN _ = False"
| "changed_beyond_tol _ NaN = False"
| "changed_beyond_tol PInf PInf = False"
| "changed_beyond_tol NInf NInf = False"
| "changed_beyond_tol _ _ = True"

section \<open>Configuration and messages\<close>

record Config =
  DEBUG :: bool
  ROOT_DIR :: string
  BACKUP_DIR :: string
  SGS_SERIE_SELIC_MENSAL :: string
  SGS_SERIE_SELIC_DIARIA_ANN252 :: string
  SGS_SERIE_POUP_MENSAL :: string
  SGS_SERIE_POUP_ANTIGA :: string
  SELIC_JS_NAME :: string
  POUP_JS_NAME :: string
  SELIC_JS_CONST_NAME :: string
  POUP_JS_CONST_NAME :: string
  TREAT_CHANGED_OLD_VALUES_AS_ERROR :: bool

definition CONFIG :: Config where
  "CONFIG = \<lparr> DEBUG = True, ROOT_DIR = ''.'', BACKUP_DIR = ''./backups'',
     SGS_SERIE_SELIC_MENSAL = ''4390'', SGS_SERIE_SELIC_DIARIA_ANN252 = ''1178'',
     SGS_SERIE_POUP_MENSAL = ''196'', SGS_SERIE_POUP_ANTIGA = ''7828'',
     SELIC_JS_NAME = ''selic_data.js'', POUP_JS_NAME = ''poupanca_data.js'',
     SELIC_JS_CONST_NAME = ''selicFactors'', POUP_JS_CONST_NAME = ''poupancaFactors'',
     TREAT_CHANGED_OLD_VALUES_AS_ERROR = False \<rparr>"

text \<open>
  What \<^verbatim>\<open>err\<close> prints. In debug mode the line carries the code, the fixed text
  of that code in \<^verbatim>\<open>ERROR_CODES\<close> (a function of the code, left out here) and the
  caller's \<^verbatim>\<open>extra\<close>; otherwise only the code. The \<^verbatim>\<open>extra\<close> of the two
  non-regression messages is kept structured: the list that the f-string prints, and whether
  the \<^verbatim>\<open>'...'\<close> suffix follows it.
\<close>

datatype extra = NoExtra | Note string | LostPeriods "string list" bool | ChangedValues "string list"

datatype line = ErrDebug string extra | ErrShort string

definition err :: "Config \<Rightarrow> string \<Rightarrow> extra \<Rightarrow> line" where
  "err cfg code ex = (if DEBUG cfg then ErrDebug code ex else ErrShort code)"

section \<open>Non-regression check\<close>

definition month_key :: "string \<Rightarrow> string" where
  "month_key date_iso = take 7 date_iso"

text \<open>The local \<^verbatim>\<open>to_map\<close>: a dict from month to the value of the last pair of that month.\<close>

definition to_map :: "pairs \<Rightarrow> (string \<times> pyfloat) list" where
  "to_map ps = fold (\<lambda>(d, v) m. AList.update (month_key d) v m) ps []"

text \<open>The dict comprehension \<^verbatim>\<open>{d: v for d, v in pairs}\<close>.\<close>

definition dict_of_pairs :: "('k \<times> 'v) list \<Rightarrow> ('k \<times> 'v) list" where
  "dict_of_pairs ps = fold (\<lambda>(d, v) m. AList.update d v m) ps []"

definition changed_keys :: "(string \<times> pyfloat) list \<Rightarrow> (string \<times> pyfloat) list \<Rightarrow> string list" where
  "changed_keys old_map new_map =
     [k \<leftarrow> map fst old_map.
        (case (map_of old_map k, map_of new_map k) of
           (Some a, Some b) \<Rightarrow> changed_beyond_tol a b
         | _ \<Rightarrow> False)]"

text \<open>
  \<^verbatim>\<open>non_regression\<close> returns its verdict; the lines it prints through \<^verbatim>\<open>err\<close>
  are returned with it.
\<close>

definition non_regression :: "Config \<Rightarrow> pairs \<Rightarrow> pairs \<Rightarrow> string \<Rightarrow> string \<Rightarrow> bool \<times> line list" where
  "non_regression cfg old new code_on_fail mode =
     (let old_keys = (if mode = ''month'' then month_key ` fst ` set old else fst ` set old);
          new_keys = (if mode = ''month'' then month_key ` fst ` set new else fst ` set new);
          lost = sorted_list_of_set (old_keys - new_keys)
      in if lost \<noteq> [] then
           (False, [err cfg code_on_fail (LostPeriods lost (5 < length lost))])
         else if TREAT_CHANGED_OLD_VALUES_AS_ERROR cfg then
           (let changed =
                  (if mode = ''month'' then changed_keys (to_map old) (to_map new)
                   else changed_keys (dict_of_pairs old) (dict_of_pairs new))
            in if changed \<noteq> [] then
                 (False, [err cfg code_on_fail (ChangedValues (take 5 changed))])
               else (True, []))
         else (True, []))"

section \<open>Characters, dates and numbers\<close>

definition is_digit :: "char \<Rightarrow> bool" where
  "is_digit c = (c \<in> set ''0123456789'')"

definition digit_val :: "char \<Rightarrow> int" where
  "digit_val c = int (of_char c) - 48"

text \<open>\<^verbatim>\<open>str.isspace\<close> and the class \<^verbatim>\<open>\s\<close>, on the code points below 256.\<close>

definition is_space :: "char \<Rightarrow> bool" where
  "is_space c = ((of_char c :: nat) \<in> {9, 10, 11, 12, 13, 28, 29, 30, 31, 32, 133, 160})"

definition int_of_digits :: "string \<Rightarrow> int" where
  "int_of_digits ds = foldl (\<lambda>n c. 10 * n + digit_val c) 0 ds"

definition digit_char :: "int \<Rightarrow> char" where
  "digit_char n = ''0123456789'' ! nat (n mod 10)"

text \<open>\<^verbatim>\<open>f"{n:04d}"\<close> and \<^verbatim>\<open>f"{n:02d}"\<close> for the years (1 to 9999) and months
  of a \<^verbatim>\<open>datetime.date\<close>.\<close>

definition fmt04 :: "int \<Rightarrow> string" where
  "fmt04 n = [digit_char (n div 1000), digit_char (n div 100), digit_char (n div 10), digit_char n]"

definition fmt02 :: "int \<Rightarrow> string" where
  "fmt02 n = [digit_char (n div 10), digit_char n]"

text \<open>A \<^verbatim>\<open>datetime.date\<close>: year, month, day. Python orders dates chronologically,
  which is the lexicographic order of the triples.\<close>

type_synonym date = "int \<times> int \<times> int"

definition is_leap :: "int \<Rightarrow> bool" where
  "is_leap y = (y mod 4 = 0 \<and> (y mod 100 \<noteq> 0 \<or> y mod 400 = 0))"

definition days_in_month :: "int \<Rightarrow> int \<Rightarrow> int" where
  "days_in_month y m =
     (if m = 2 then (if is_leap y then 29 else 28)
      else if m \<in> {4, 6, 9, 11} then 30 else 31)"

text \<open>The constructor \<^verbatim>\<open>dt.date(y, m, d)\<close> raises \<^verbatim>\<open>ValueError\<close> outside the calendar.\<close>

definition mk_date :: "int \<Rightarrow> int \<Rightarrow> int \<Rightarrow> pyerror + date" where
  "mk_date y m d =
     (if 1 \<le> y \<and> y \<le> 9999 \<and> 1 \<le> m \<and> m \<le> 12 \<and> 1 \<le> d \<and> d \<le> days_in_month y m
      then Inr (y, m, d) else Inl ValueError)"

text \<open>
  \<^verbatim>\<open>strptime(s, "%d/%m/%Y")\<close>. The library matches \<^verbatim>\<open>s\<close> against
  \<^verbatim>\<open>(3[0-1]|[1-2]\d|0[1-9]|[1-9]| [1-9])/(1[0-2]|0[1-9]|[1-9])/(\d\d\d\d)\<close>, asks that
  nothing is left over, and builds the date. A two-character alternative and the
  one-character alternative of a field cannot both be followed by the slash, so taking the
  first alternative that matches is what the backtracking matcher finds.
\<close>

fun day_field :: "string \<Rightarrow> (int \<times> string) option" where
  "day_field (a # b # rest) =
     (if a = CHR ''3'' \<and> b \<in> set ''01'' then Some (int_of_digits [a, b], rest)
      else if a \<in> set ''12'' \<and> is_digit b then Some (int_of_digits [a, b], rest)
      else if a = CHR ''0'' \<and> b \<in> set ''123456789'' then Some (int_of_digits [a, b], rest)
      else if a \<in> set ''123456789'' then Some (int_of_digits [a], b # rest)
      else if a = CHR '' '' \<and> b \<in> set ''123456789'' then Some (int_of_digits [b], rest)
      else None)"
| "day_field [a] = (if a \<in> set ''123456789'' then Some (int_of_digits [a], []) else None)"
| "day_field [] = None"

fun month_field :: "string \<Rightarrow> (int \<times> string) option" where
  "month_field (a # b # rest) =
     (if a = CHR ''1'' \<and> b \<in> set ''012'' then Some (int_of_digits [a, b], rest)
      else if a = CHR ''0'' \<and> b \<in> set ''123456789'' then Some (int_of_digits [a, b], rest)
      else if a \<in> set ''123456789'' then Some (int_of_digits [a], b # rest)
      else None)"
| "month_field [a] = (if a \<in> set ''123456789'' then Some (int_of_digits [a], []) else None)"
| "month_field [] = None"

definition year_field :: "string \<Rightarrow> int option" where
  "year_field s = (if length s = 4 \<and> list_all is_digit s then Some (int_of_digits s) else None)"

definition expect_slash :: "string \<Rightarrow> string option" where
  "expect_slash s = (case s of c # rest \<Rightarrow> if c = CHR ''/'' then Some rest else None | [] \<Rightarrow> None)"

definition strptime :: "string \<Rightarrow> date option" where
  "strptime s =
     (case day_field s of None \<Rightarrow> None | Some (d, r1) \<Rightarrow>
      (case expect_slash r1 of None \<Rightarrow> None | Some r2 \<Rightarrow>
      (case month_field r2 of None \<Rightarrow> None | Some (m, r3) \<Rightarrow>
      (case expect_slash r3 of None \<Rightarrow> None | Some r4 \<Rightarrow>
      (case year_field r4 of None \<Rightarrow> None | Some y \<Rightarrow>
      (case mk_date y m d of Inl e \<Rightarrow> None | Inr dt \<Rightarrow> Some dt))))))"

text \<open>
  \<^verbatim>\<open>d.strftime("%Y-%m-01")\<close>. The C library of Linux, which CPython calls, writes
  \<^verbatim>\<open>%Y\<close> as the plain decimal numeral of the year, without leading zeros: the year 999
  gives \<^verbatim>\<open>999-03-01\<close>. \<open>year_text\<close> is that numeral for the years 1 to 9999 of a date.
\<close>

definition year_text :: "int \<Rightarrow> string" where
  "year_text y =
     (if y < 10 then [digit_char y]
      else if y < 100 then [digit_char (y div 10), digit_char y]
      else if y < 1000 then [digit_char (y div 100), digit_char (y div 10), digit_char y]
      else fmt04 y)"

definition strftime_month_start :: "date \<Rightarrow> string" where
  "strftime_month_start d = (case d of (y, m, _) \<Rightarrow> year_text y @ ''-'' @ fmt02 m @ ''-01'')"

text \<open>
  \<^verbatim>\<open>float(s)\<close> on a string. Underscores may stand between two digits only; blanks at
  both ends are dropped; after an optional sign come \<^verbatim>\<open>inf\<close>, \<^verbatim>\<open>infinity\<close> or
  \<^verbatim>\<open>nan\<close> in any case, or a decimal numeral with at least one digit in its mantissa and
  an optional exponent. Anything else raises \<^verbatim>\<open>ValueError\<close> (\<open>None\<close> here).
\<close>

fun drop_underscores :: "char \<Rightarrow> string \<Rightarrow> string option" where
  "drop_underscores prev [] = (if prev = CHR ''_'' then None else Some [])"
| "drop_underscores prev (c # cs) =
     (if c = CHR ''_'' then (if is_digit prev then drop_underscores c cs else None)
      else if prev = CHR ''_'' \<and> \<not> is_digit c then None
      else map_option ((#) c) (drop_underscores c cs))"

definition py_strip :: "string \<Rightarrow> string" where
  "py_strip s = rev (dropWhile is_space (rev (dropWhile is_space s)))"

definition lower_ascii :: "char \<Rightarrow> char" where
  "lower_ascii c = (if c \<in> set ''ABCDEFGHIJKLMNOPQRSTUVWXYZ'' then char_of (of_char c + (32::nat)) else c)"

definition exponent_part :: "string \<Rightarrow> int option" where
  "exponent_part t =
     (let neg = (case t of c # _ \<Rightarrow> c = CHR ''-'' | [] \<Rightarrow> False);
          ds = (case t of c # u \<Rightarrow> if c \<in> set ''+-'' then u else t | [] \<Rightarrow> [])
      in if ds \<noteq> [] \<and> list_all is_digit ds
         then Some (if neg then - int_of_digits ds else int_of_digits ds) else None)"

definition parse_decimal :: "string \<Rightarrow> real option" where
  "parse_decimal s =
     (let ip = takeWhile is_digit s;
          r1 = dropWhile is_digit s;
          has_point = (case r1 of c # _ \<Rightarrow> c = CHR ''.'' | [] \<Rightarrow> False);
          fp = (if has_point then takeWhile is_digit (tl r1) else []);
          r2 = (if has_point then dropWhile is_digit (tl r1) else r1);
          m = real_of_int (int_of_digits ip) + real_of_int (int_of_digits fp) / 10 ^ length fp
      in if ip = [] \<and> fp = [] then None
         else (case r2 of
                 [] \<Rightarrow> Some m
               | c # t \<Rightarrow>
                   if c \<in> set ''eE'' then
                     (case exponent_part t of
                        None \<Rightarrow> None
                      | Some e \<Rightarrow> Some (if e < 0 then m / 10 ^ nat (- e) else m * 10 ^ nat e))
                   else None))"

definition float_of_str :: "string \<Rightarrow> pyfloat option" where
  "float_of_str s0 =
     (case (if CHR ''_'' \<in> set s0 then drop_underscores (CHR 0x00) s0 else Some s0) of
        None \<Rightarrow> None
      | Some s1 \<Rightarrow>
          (let s = py_strip s1;
               neg = (case s of c # _ \<Rightarrow> c = CHR ''-'' | [] \<Rightarrow> False);
               body = (case s of c # u \<Rightarrow> if c \<in> set ''+-'' then u else s | [] \<Rightarrow> []);
               word = map lower_ascii body
           in if word = ''inf'' \<or> word = ''infinity'' then Some (if neg then NInf else PInf)
              else if word = ''nan'' then Some NaN
              else map_option (\<lambda>x. Fin (if neg then - x else x)) (parse_decimal body)))"

text \<open>\<^verbatim>\<open>v / 100.0\<close>.\<close>

fun div100 :: "pyfloat \<Rightarrow> pyfloat" where
  "div100 (Fin x) = Fin (x / 100)"
| "div100 v = v"

section \<open>Raw records and the normalizer\<close>

text \<open>
  An element of the JSON array: a dict read through \<^verbatim>\<open>get("data")\<close> and
  \<^verbatim>\<open>get("valor")\<close>, both strings when present (\<open>None\<close>: the key is absent or null).
\<close>

record item =
  data :: "string option"
  valor :: "string option"

definition replace_comma :: "string \<Rightarrow> string" where
  "replace_comma s = map (\<lambda>c. if c = CHR '','' then CHR ''.'' else c) s"

text \<open>The body of the loop of \<^verbatim>\<open>to_pairs\<close>: \<open>None\<close> is \<^verbatim>\<open>continue\<close>.\<close>

definition to_pair :: "item \<Rightarrow> (string \<times> pyfloat) option" where
  "to_pair it =
     (case data it of None \<Rightarrow> None | Some raw_date \<Rightarrow>
      if raw_date = [] then None else
      (case valor it of None \<Rightarrow> None | Some raw_val \<Rightarrow>
       if raw_val = [] then None else
       (case strptime raw_date of None \<Rightarrow> None | Some d \<Rightarrow>
        (case float_of_str (py_strip (replace_comma raw_val)) of None \<Rightarrow> None | Some v \<Rightarrow>
           Some (strftime_month_start d, div100 v)))))"

fun to_pairs_loop :: "item list \<Rightarrow> pairs" where
  "to_pairs_loop [] = []"
| "to_pairs_loop (it # items) =
     (case to_pair it of None \<Rightarrow> to_pairs_loop items | Some p \<Rightarrow> p # to_pairs_loop items)"

text \<open>\<^verbatim>\<open>uniq = {d: v for d, v in out}\<close>, then \<^verbatim>\<open>sorted(uniq.items(), key=lambda x: x[0])\<close>.\<close>

definition dedup_sort :: "pairs \<Rightarrow> pairs" where
  "dedup_sort out = sort_key fst (dict_of_pairs out)"

definition to_pairs :: "item list \<Rightarrow> pairs" where
  "to_pairs items = dedup_sort (to_pairs_loop items)"

text \<open>
  \<^verbatim>\<open>to_pairs\<close> reads every element through \<^verbatim>\<open>it.get\<close>. Python does not type its
  argument: handed the tuples of a normalized series instead of dicts, the first
  \<^verbatim>\<open>it.get("data")\<close> raises \<^verbatim>\<open>AttributeError\<close>. \<open>to_pairs_any\<close> is
  \<^verbatim>\<open>to_pairs\<close> on a list of either kind of element.
\<close>

datatype pyobj = Dict item | Tuple "string \<times> pyfloat"

fun to_pairs_loop_any :: "pyobj list \<Rightarrow> pyerror + pairs" where
  "to_pairs_loop_any [] = Inr []"
| "to_pairs_loop_any (Tuple t # objs) = Inl AttributeError"
| "to_pairs_loop_any (Dict it # objs) =
     (case to_pairs_loop_any objs of
        Inl e \<Rightarrow> Inl e
      | Inr out \<Rightarrow> Inr (case to_pair it of None \<Rightarrow> out | Some p \<Rightarrow> p # out))"

definition to_pairs_any :: "pyobj list \<Rightarrow> pyerror + pairs" where
  "to_pairs_any objs =
     (case to_pairs_loop_any objs of Inl e \<Rightarrow> Inl e | Inr out \<Rightarrow> Inr (dedup_sort out))"

section \<open>Series merger\<close>

definition month_key_iso :: "date \<Rightarrow> string" where
  "month_key_iso d = (case d of (y, m, _) \<Rightarrow> fmt04 y @ ''-'' @ fmt02 m)"

text \<open>\<^verbatim>\<open>parse_date(it["data"])\<close>: the subscript raises when the key is missing, the
  parser when the string is not a date.\<close>

definition parse_date :: "item \<Rightarrow> pyerror + date" where
  "parse_date it =
     (case data it of
        None \<Rightarrow> Inl KeyError
      | Some s \<Rightarrow> (case strptime s of None \<Rightarrow> Inl ValueError | Some d \<Rightarrow> Inr d))"

text \<open>
  The two loops of \<^verbatim>\<open>merge_poup_series\<close> differ in their test only
  (\<^verbatim>\<open>mk < cutoff_month\<close> for the old list, \<^verbatim>\<open>mk >= cutoff_month\<close> for the new one),
  which is the parameter \<open>keep\<close>. The dict \<^verbatim>\<open>merged_months\<close> is threaded through.
\<close>

fun merge_loop :: "(string \<Rightarrow> bool) \<Rightarrow> item list \<Rightarrow> (string \<times> string option) list
    \<Rightarrow> pyerror + (string \<times> string option) list" where
  "merge_loop keep [] merged_months = Inr merged_months"
| "merge_loop keep (it # items) merged_months =
     (case parse_date it of
        Inl e \<Rightarrow> Inl e
      | Inr d \<Rightarrow>
          (let mk = month_key_iso d
           in merge_loop keep items
                (if keep mk then AList.update mk (valor it) merged_months else merged_months)))"

text \<open>\<^verbatim>\<open>str.split\<close> on a one-character separator.\<close>

fun split_on :: "char \<Rightarrow> string \<Rightarrow> string list" where
  "split_on c [] = [[]]"
| "split_on c (x # xs) =
     (if x = c then [] # split_on c xs
      else (case split_on c xs of p # ps \<Rightarrow> (x # p) # ps | [] \<Rightarrow> [[x]]))"

text \<open>The last loop: \<^verbatim>\<open>y, m = mk.split("-")\<close> raises unless there are two parts.\<close>

fun merge_out :: "(string \<times> string option) list \<Rightarrow> string list \<Rightarrow> pyerror + item list" where
  "merge_out merged_months [] = Inr []"
| "merge_out merged_months (mk # mks) =
     (case split_on (CHR ''-'') mk of
        [y, m] \<Rightarrow>
          (case map_of merged_months mk of
             None \<Rightarrow> Inl KeyError
           | Some v \<Rightarrow>
               (case merge_out merged_months mks of
                  Inl e \<Rightarrow> Inl e
                | Inr out \<Rightarrow> Inr (\<lparr> data = Some (''01/'' @ m @ ''/'' @ y), valor = v \<rparr> # out)))
      | _ \<Rightarrow> Inl ValueError)"

text \<open>\<^verbatim>\<open>merge_poup_series\<close> with its local constant \<^verbatim>\<open>cutoff_month\<close> as a parameter.\<close>

definition merge_poup_series_at :: "string \<Rightarrow> item list \<Rightarrow> item list \<Rightarrow> pyerror + item list" where
  "merge_poup_series_at cutoff_month items_old items_new =
     (case merge_loop (\<lambda>mk. mk < cutoff_month) items_old [] of
        Inl e \<Rightarrow> Inl e
      | Inr m1 \<Rightarrow>
          (case merge_loop (\<lambda>mk. mk \<ge> cutoff_month) items_new m1 of
             Inl e \<Rightarrow> Inl e
           | Inr m2 \<Rightarrow> merge_out m2 (sort (map fst m2))))"

definition merge_poup_series :: "item list \<Rightarrow> item list \<Rightarrow> pyerror + item list" where
  "merge_poup_series items_old items_new = merge_poup_series_at ''2012-06'' items_old items_new"

section \<open>Remote series fetcher\<close>

text \<open>
  The answer to one request: \<open>None\<close> when \<^verbatim>\<open>http_get_json\<close> returns \<^verbatim>\<open>None\<close>
  or something that is not a list, the list of records otherwise. The network is a function
  from what determines the URL (the series and the two dates of the chunk) to the answer.
\<close>

type_synonym response = "item list option"

definition chunk_items :: "response \<Rightarrow> item list" where
  "chunk_items js = (case js of None \<Rightarrow> [] | Some l \<Rightarrow> l)"

text \<open>
  \<^verbatim>\<open>out.sort(key=lambda d: to_date(d["data"]))\<close>: the keys are computed first, and a
  string that is not a date raises; the sort is stable.
\<close>

definition keyed :: "item \<Rightarrow> (date \<times> item) option" where
  "keyed it = (case parse_date it of Inl e \<Rightarrow> None | Inr d \<Rightarrow> Some (d, it))"

definition sort_by_date :: "item list \<Rightarrow> pyerror + item list" where
  "sort_by_date out =
     (if list_all (\<lambda>it. keyed it \<noteq> None) out
      then Inr (map snd (sort_key fst (List.map_filter keyed out)))
      else Inl ValueError)"

definition nonempty_key :: "string option \<Rightarrow> bool" where
  "nonempty_key k = (case k of None \<Rightarrow> False | Some s \<Rightarrow> s \<noteq> [])"

text \<open>
  De-duplication by date, the last record of a date giving the value. In
  \<^verbatim>\<open>fetch_sgs_series\<close> every record enters the dict \<^verbatim>\<open>seen\<close> and the keys that are
  missing or empty are left out afterwards (\<^verbatim>\<open>if k\<close>); in \<^verbatim>\<open>fetch_sgs_series_range\<close>
  the records without a date do not enter the dict.
\<close>

definition series_records :: "item list \<Rightarrow> item list" where
  "series_records all_items =
     (let seen = fold (\<lambda>it seen. AList.update (data it) (valor it) seen) all_items []
      in [\<lparr> data = k, valor = v \<rparr>. (k, v) \<leftarrow> seen, nonempty_key k])"

definition range_records :: "item list \<Rightarrow> item list" where
  "range_records all_items =
     (let seen = fold (\<lambda>it seen. if nonempty_key (data it)
                                  then AList.update (data it) (valor it) seen else seen)
                   all_items []
      in [\<lparr> data = k, valor = v \<rparr>. (k, v) \<leftarrow> seen])"

text \<open>\<^verbatim>\<open>fetch_sgs_series\<close>: one request per year; \<open>end_year\<close> is the year of today
  when the caller gives none.\<close>

definition fetch_sgs_series :: "(string \<Rightarrow> int \<Rightarrow> response) \<Rightarrow> string \<Rightarrow> int \<Rightarrow> int
    \<Rightarrow> pyerror + item list" where
  "fetch_sgs_series http serie start_year end_year =
     (let all_items = concat (map (\<lambda>year. chunk_items (http serie year)) [start_year..end_year])
      in sort_by_date (series_records all_items))"

text \<open>
  The loop of \<^verbatim>\<open>fetch_sgs_series_range\<close>. It does not return when \<^verbatim>\<open>step_years\<close>
  is zero, which is the value \<open>None\<close>; a date constructor that raises ends it with the error.
\<close>

partial_function (option) range_loop :: "(date \<Rightarrow> date \<Rightarrow> response) \<Rightarrow> date \<Rightarrow> date \<Rightarrow> int
    \<Rightarrow> int \<Rightarrow> item list \<Rightarrow> (pyerror + item list) option" where
  "range_loop http d0 d1 step_years y all_items =
     (if y \<le> fst d1 then
        (case mk_date y 1 1 of
           Inl e \<Rightarrow> Some (Inl e)
         | Inr ini0 \<Rightarrow>
             (case mk_date (min (y + step_years - 1) (fst d1)) 12 31 of
                Inl e \<Rightarrow> Some (Inl e)
              | Inr fim0 \<Rightarrow>
                  (let ini = (if ini0 < d0 then d0 else ini0);
                       fim = (if fim0 > d1 then d1 else fim0)
                   in range_loop http d0 d1 step_years (y + step_years)
                        (all_items @ chunk_items (http ini fim)))))
      else Some (Inr all_items))"

declare range_loop.simps [code]

definition fetch_sgs_series_range :: "(string \<Rightarrow> date \<Rightarrow> date \<Rightarrow> response) \<Rightarrow> string \<Rightarrow> string
    \<Rightarrow> string \<Rightarrow> int \<Rightarrow> (pyerror + item list) option" where
  "fetch_sgs_series_range http serie start_date end_date step_years =
     (case strptime start_date of None \<Rightarrow> Some (Inl ValueError) | Some d0 \<Rightarrow>
      (case strptime end_date of None \<Rightarrow> Some (Inl ValueError) | Some d1 \<Rightarrow>
      (case range_loop (http serie) d0 d1 step_years (fst d0) [] of
         None \<Rightarrow> None
       | Some (Inl e) \<Rightarrow> Some (Inl e)
       | Some (Inr all_items) \<Rightarrow> Some (sort_by_date (range_records all_items)))))"

section \<open>Daily-to-monthly aggregation\<close>

text \<open>
  The floating-point arithmetic of the aggregation is outside the model: \<open>daily\<close> stands
  for \<^verbatim>\<open>fd = (1.0 + r_aa) ** (1.0/252.0) - 1.0\<close> and \<open>compound\<close> for the running product
  \<^verbatim>\<open>acc *= (1.0 + fd)\<close> followed by \<^verbatim>\<open>acc - 1.0\<close>. Neither raises (a power with a
  negative base is a complex number in Python, not an error), so which records enter which
  bucket depends on the two parsers only.
\<close>

definition daily_entry :: "(pyfloat \<Rightarrow> pyfloat) \<Rightarrow> item \<Rightarrow> (string \<times> pyfloat) option" where
  "daily_entry daily it =
     (case data it of None \<Rightarrow> None | Some raw_date \<Rightarrow>
      if raw_date = [] then None else
      (case valor it of None \<Rightarrow> None | Some raw_val \<Rightarrow>
       if raw_val = [] then None else
       (case strptime raw_date of None \<Rightarrow> None | Some d \<Rightarrow>
        (case float_of_str (py_strip (replace_comma raw_val)) of None \<Rightarrow> None | Some v \<Rightarrow>
           Some (month_key_iso d, daily (div100 v))))))"

text \<open>\<^verbatim>\<open>buckets[key].append(fd)\<close> on a \<^verbatim>\<open>defaultdict(list)\<close>.\<close>

definition bucket_append :: "string \<Rightarrow> pyfloat \<Rightarrow> (string \<times> pyfloat list) list \<Rightarrow> (string \<times> pyfloat list) list" where
  "bucket_append key fd buckets =
     AList.update key ((case map_of buckets key of None \<Rightarrow> [] | Some l \<Rightarrow> l) @ [fd]) buckets"

fun fill_buckets :: "(pyfloat \<Rightarrow> pyfloat) \<Rightarrow> item list \<Rightarrow> (string \<times> pyfloat list) list
    \<Rightarrow> (string \<times> pyfloat list) list" where
  "fill_buckets daily [] buckets = buckets"
| "fill_buckets daily (it # items) buckets =
     (case daily_entry daily it of
        None \<Rightarrow> fill_buckets daily items buckets
      | Some (key, fd) \<Rightarrow> fill_buckets daily items (bucket_append key fd buckets))"

definition monthly_pairs :: "(pyfloat \<Rightarrow> pyfloat) \<Rightarrow> (pyfloat list \<Rightarrow> pyfloat) \<Rightarrow> item list \<Rightarrow> pairs" where
  "monthly_pairs daily compound items =
     (let buckets = fill_buckets daily items []
      in [(key @ ''-01'', compound (case map_of buckets key of None \<Rightarrow> [] | Some l \<Rightarrow> l)).
            key \<leftarrow> sort (map fst buckets)])"

definition fetch_selic1178_monthly_pairs :: "Config \<Rightarrow> (string \<Rightarrow> int \<Rightarrow> response)
    \<Rightarrow> (pyfloat \<Rightarrow> pyfloat) \<Rightarrow> (pyfloat list \<Rightarrow> pyfloat) \<Rightarrow> int \<Rightarrow> int \<Rightarrow> pyerror + pairs" where
  "fetch_selic1178_monthly_pairs cfg http daily compound start_year today_year =
     (case fetch_sgs_series http (SGS_SERIE_SELIC_DIARIA_ANN252 cfg) start_year today_year of
        Inl e \<Rightarrow> Inl e
      | Inr items \<Rightarrow> Inr (if items = [] then [] else monthly_pairs daily compound items))"

section \<open>The persisted file: reading and writing\<close>

text \<open>
  The pattern \<^verbatim>\<open>PAIR_RE\<close>,
  \<^verbatim>\<open>\{\s*date\s*:\s*['"](\d{4}-\d{2}-\d{2})['"]\s*,\s*factor\s*:\s*([0-9.]+)\s*\}\<close>,
  matched at the head of a string: the two groups and what follows the match. Every
  repetition is followed by something outside its own class, so the greedy run is the only
  one that can lead to a match.
\<close>

definition expect :: "string \<Rightarrow> string \<Rightarrow> string option" where
  "expect lit s = (if take (length lit) s = lit then Some (drop (length lit) s) else None)"

definition skip_spaces :: "string \<Rightarrow> string" where
  "skip_spaces s = dropWhile is_space s"

definition quote :: "string \<Rightarrow> string option" where
  "quote s = (case s of c # rest \<Rightarrow> if c = CHR 0x27 \<or> c = CHR 0x22 then Some rest else None | [] \<Rightarrow> None)"

definition date_text :: "string \<Rightarrow> (string \<times> string) option" where
  "date_text s =
     (let t = take 10 s
      in if length t = 10 \<and> list_all is_digit (take 4 t) \<and> t ! 4 = CHR ''-''
            \<and> list_all is_digit (take 2 (drop 5 t)) \<and> t ! 7 = CHR ''-''
            \<and> list_all is_digit (drop 8 t)
         then Some (t, drop 10 s) else None)"

definition number_char :: "char \<Rightarrow> bool" where
  "number_char c = (is_digit c \<or> c = CHR ''.'')"

definition number_text :: "string \<Rightarrow> (string \<times> string) option" where
  "number_text s =
     (if takeWhile number_char s = [] then None
      else Some (takeWhile number_char s, dropWhile number_char s))"

definition match_pair :: "string \<Rightarrow> (string \<times> string \<times> string) option" where
  "match_pair s0 =
     Option.bind (expect ''{'' s0) (\<lambda>s1.
     Option.bind (expect ''date'' (skip_spaces s1)) (\<lambda>s2.
     Option.bind (expect '':'' (skip_spaces s2)) (\<lambda>s3.
     Option.bind (quote (skip_spaces s3)) (\<lambda>s4.
     Option.bind (date_text s4) (\<lambda>(d, s5).
     Option.bind (quote s5) (\<lambda>s6.
     Option.bind (expect '','' (skip_spaces s6)) (\<lambda>s7.
     Option.bind (expect ''factor'' (skip_spaces s7)) (\<lambda>s8.
     Option.bind (expect '':'' (skip_spaces s8)) (\<lambda>s9.
     Option.bind (number_text (skip_spaces s9)) (\<lambda>(f, s10).
     Option.bind (expect ''}'' (skip_spaces s10)) (\<lambda>rest.
       Some (d, f, rest))))))))))))"

lemma expect_length: "expect lit s = Some r \<Longrightarrow> length r + length lit = length s"
proof -
  assume "expect lit s = Some r"
  then have t: "take (length lit) s = lit" and r: "r = drop (length lit) s"
    by (simp_all add: expect_def split: if_splits)
  from t have "length (take (length lit) s) = length lit" by simp
  then have "length lit \<le> length s" by simp
  with r show ?thesis by simp
qed

lemma skip_spaces_length: "length (skip_spaces s) \<le> length s"
  by (simp add: skip_spaces_def length_dropWhile_le)

lemma expect_skip_length: "expect lit (skip_spaces s) = Some r \<Longrightarrow> length r + length lit \<le> length s"
  using expect_length [of lit "skip_spaces s" r] skip_spaces_length [of s] by simp

lemma quote_length: "quote s = Some r \<Longrightarrow> length r < length s"
  by (cases s) (simp_all add: quote_def split: if_splits)

lemma quote_skip_length: "quote (skip_spaces s) = Some r \<Longrightarrow> length r < length s"
  using quote_length [of "skip_spaces s" r] skip_spaces_length [of s] by simp

lemma date_text_length: "date_text s = Some (d, r) \<Longrightarrow> length r \<le> length s"
proof -
  assume "date_text s = Some (d, r)"
  then have "r = drop 10 s" by (simp add: date_text_def Let_def split: if_splits)
  then show ?thesis by simp
qed

lemma number_text_length: "number_text s = Some (f, r) \<Longrightarrow> length r \<le> length s"
  by (simp add: number_text_def split: if_splits) (metis length_dropWhile_le)

lemma number_skip_length: "number_text (skip_spaces s) = Some (f, r) \<Longrightarrow> length r \<le> length s"
  using number_text_length [of "skip_spaces s" f r] skip_spaces_length [of s] by simp

lemma match_pair_shorter:
  assumes "match_pair s = Some (d, f, rest)"
  shows "length rest < length s"
proof -
  from assms obtain s1 s2 s3 s4 s5 s6 s7 s8 s9 s10 where
      a1: "expect ''{'' s = Some s1" and
      a2: "expect ''date'' (skip_spaces s1) = Some s2" and
      a3: "expect '':'' (skip_spaces s2) = Some s3" and
      a4: "quote (skip_spaces s3) = Some s4" and
      a5: "date_text s4 = Some (d, s5)" and
      a6: "quote s5 = Some s6" and
      a7: "expect '','' (skip_spaces s6) = Some s7" and
      a8: "expect ''factor'' (skip_spaces s7) = Some s8" and
      a9: "expect '':'' (skip_spaces s8) = Some s9" and
      a10: "number_text (skip_spaces s9) = Some (f, s10)" and
      a11: "expect ''}'' (skip_spaces s10) = Some rest"
    unfolding match_pair_def by (auto simp: bind_eq_Some_conv)
  have "length s1 < length s" using expect_length [OF a1] by simp
  moreover have "length s2 \<le> length s1" using expect_skip_length [OF a2] by simp
  moreover have "length s3 \<le> length s2" using expect_skip_length [OF a3] by simp
  moreover have "length s4 \<le> length s3" using quote_skip_length [OF a4] by simp
  moreover have "length s5 \<le> length s4" using date_text_length [OF a5] .
  moreover have "length s6 \<le> length s5" using quote_length [OF a6] by simp
  moreover have "length s7 \<le> length s6" using expect_skip_length [OF a7] by simp
  moreover have "length s8 \<le> length s7" using expect_skip_length [OF a8] by simp
  moreover have "length s9 \<le> length s8" using expect_skip_length [OF a9] by simp
  moreover have "length s10 \<le> length s9" using number_skip_length [OF a10] .
  moreover have "length rest \<le> length s10" using expect_skip_length [OF a11] by simp
  ultimately show ?thesis by linarith
qed

text \<open>
  \<^verbatim>\<open>PAIR_RE.finditer(content)\<close>: the matches from left to right, the search resuming where
  the last match ended, one character further where there is none.
\<close>

function finditer :: "string \<Rightarrow> (string \<times> string) list" where
  "finditer [] = []"
| "finditer (c # cs) =
     (case match_pair (c # cs) of
        Some (d, f, rest) \<Rightarrow> (d, f) # finditer rest
      | None \<Rightarrow> finditer cs)"
  by pat_completeness auto
termination finditer
  by (relation "measure length") (auto dest: match_pair_shorter)

text \<open>The comprehension \<^verbatim>\<open>[(m.group(1), float(m.group(2))) for m in ...]\<close>; \<^verbatim>\<open>float\<close>
  is not guarded here, so the first text that is not a numeral raises.\<close>

fun pairs_of_matches :: "(string \<times> string) list \<Rightarrow> pyerror + pairs" where
  "pairs_of_matches [] = Inr []"
| "pairs_of_matches ((d, f) # ms) =
     (case float_of_str f of
        None \<Rightarrow> Inl ValueError
      | Some v \<Rightarrow> (case pairs_of_matches ms of Inl e \<Rightarrow> Inl e | Inr out \<Rightarrow> Inr ((d, v) # out)))"

text \<open>The files: a path has a content or does not exist.\<close>

type_synonym fs = "string \<Rightarrow> string option"

definition read_js_pairs :: "fs \<Rightarrow> string \<Rightarrow> pyerror + pairs" where
  "read_js_pairs files path =
     (case files path of
        None \<Rightarrow> Inr []
      | Some content \<Rightarrow>
          (case pairs_of_matches (finditer content) of
             Inl e \<Rightarrow> Inl e
           | Inr out \<Rightarrow> Inr (sort_key fst out)))"

fun join_lines :: "string list \<Rightarrow> string" where
  "join_lines [] = []"
| "join_lines [l] = l"
| "join_lines (l # ls) = l @ [CHR 0x0A] @ join_lines ls"

text \<open>\<^verbatim>\<open>serialize_js\<close>; \<open>fmt\<close> stands for the rendering \<^verbatim>\<open>{v:.6f}\<close> of a float.\<close>

definition serialize_js :: "(pyfloat \<Rightarrow> string) \<Rightarrow> string \<Rightarrow> pairs \<Rightarrow> string" where
  "serialize_js fmt const_name ps =
     ''const '' @ const_name @ '' = ['' @ [CHR 0x0A]
     @ join_lines (map (\<lambda>(d, v). ''  { date: '' @ [CHR 0x27] @ d @ [CHR 0x27] @ '', factor: '' @ fmt v @ '' },'') ps)
     @ [CHR 0x0A] @ ''];'' @ [CHR 0x0A]"

section \<open>Backup, atomic write and restore\<close>

text \<open>\<^verbatim>\<open>os.path.join\<close> of two components and \<^verbatim>\<open>os.path.basename\<close>, on POSIX paths.\<close>

definition path_join :: "string \<Rightarrow> string \<Rightarrow> string" where
  "path_join a b =
     (if take 1 b = ''/'' then b
      else if a = [] \<or> last a = CHR ''/'' then a @ b
      else a @ ''/'' @ b)"

definition basename :: "string \<Rightarrow> string" where
  "basename p = rev (takeWhile (\<lambda>c. c \<noteq> CHR ''/'') (rev p))"

definition join_root :: "Config \<Rightarrow> string \<Rightarrow> string" where
  "join_root cfg name = path_join (ROOT_DIR cfg) name"

text \<open>\<^verbatim>\<open>now_stamp\<close>: the clock (year, month, day, hour, minute, second) rendered by
  \<^verbatim>\<open>"%Y-%m-%d_%H%M%S"\<close>.\<close>

type_synonym clock = "int \<times> int \<times> int \<times> int \<times> int \<times> int"

definition now_stamp :: "clock \<Rightarrow> string" where
  "now_stamp t =
     (case t of (y, mo, d, h, mi, sec) \<Rightarrow>
        fmt04 y @ ''-'' @ fmt02 mo @ ''-'' @ fmt02 d @ ''_'' @ fmt02 h @ fmt02 mi @ fmt02 sec)"

text \<open>
  What the program cannot decide is a field of the world it runs in: the answers of the
  network, the clock, and how each file operation ends. A copy that fails may leave its
  destination untouched (\<open>None\<close>) or holding some other content. Writing the temporary
  file may fail at \<^verbatim>\<open>open\<close>, in \<^verbatim>\<open>write\<close> (leaving some content behind), or at
  \<^verbatim>\<open>os.replace\<close>. The three functions on floats that are outside the model are fields too.
\<close>

datatype copy_result = Copied | CopyFailed "string option"

datatype write_result = Written | OpenFailed | WriteFailed string | ReplaceFailed

record world =
  http_year :: "string \<Rightarrow> int \<Rightarrow> response"
  http_range :: "string \<Rightarrow> date \<Rightarrow> date \<Rightarrow> response"
  today_year :: int
  now :: clock
  daily :: "pyfloat \<Rightarrow> pyfloat"
  compound :: "pyfloat list \<Rightarrow> pyfloat"
  fmt6 :: "pyfloat \<Rightarrow> string"
  dirs_ok :: bool
  backup_dirs_ok :: bool
  backup_copy :: copy_result
  serialize_raises :: bool
  tmp_write :: write_result
  restore_copy :: copy_result

text \<open>\<^verbatim>\<open>shutil.copy2(src, dst)\<close>, as far as the contents of files go.\<close>

definition copy2 :: "copy_result \<Rightarrow> fs \<Rightarrow> string \<Rightarrow> string \<Rightarrow> bool \<times> fs" where
  "copy2 res files src dst =
     (case files src of
        None \<Rightarrow> (False, files)
      | Some content \<Rightarrow>
          (case res of
             Copied \<Rightarrow> (True, files(dst \<mapsto> content))
           | CopyFailed left \<Rightarrow>
               (False, (case left of None \<Rightarrow> files | Some p \<Rightarrow> files(dst \<mapsto> p)))))"

text \<open>\<^verbatim>\<open>backup_file\<close> returns the path of the backup, or \<open>None\<close> when there is nothing
  to back up or when anything in it raised.\<close>

definition backup_file :: "Config \<Rightarrow> world \<Rightarrow> fs \<Rightarrow> string \<Rightarrow> string option \<times> fs" where
  "backup_file cfg w files path =
     (if files path = None then (None, files)
      else if \<not> backup_dirs_ok w then (None, files)
      else (let dest = path_join (BACKUP_DIR cfg) (basename path @ ''.'' @ now_stamp (now w) @ ''.bak'');
                r = copy2 (backup_copy w) files path dest
            in (if fst r then Some dest else None, snd r)))"

definition write_atomic :: "Config \<Rightarrow> world \<Rightarrow> fs \<Rightarrow> string \<Rightarrow> string \<Rightarrow> string
    \<Rightarrow> bool \<times> fs \<times> line list" where
  "write_atomic cfg w files path content code_fail =
     (let tmp = path @ ''.tmp''
      in case tmp_write w of
           Written \<Rightarrow> (True, (files(tmp := None))(path \<mapsto> content), [])
         | OpenFailed \<Rightarrow> (False, files, [err cfg code_fail (Note ''open'')])
         | WriteFailed left \<Rightarrow> (False, files(tmp \<mapsto> left), [err cfg code_fail (Note ''write'')])
         | ReplaceFailed \<Rightarrow> (False, files(tmp \<mapsto> content), [err cfg code_fail (Note ''replace'')]))"

definition restore_backup :: "Config \<Rightarrow> world \<Rightarrow> fs \<Rightarrow> string \<Rightarrow> string \<Rightarrow> string
    \<Rightarrow> bool \<times> fs \<times> line list" where
  "restore_backup cfg w files latest_backup_path target_path code_fail =
     (let r = copy2 (restore_copy w) files latest_backup_path target_path
      in (fst r, snd r, if fst r then [] else [err cfg code_fail (Note ''copy'')]))"

section \<open>Pipelines\<close>

text \<open>How a run ends: with a return code, or with an exception that nothing catches.\<close>

datatype outcome = Returns int | Raises pyerror

text \<open>
  From \<^verbatim>\<open>pairs_old = read_js_pairs(target)\<close> to the end, \<^verbatim>\<open>update_selic\<close> and
  \<^verbatim>\<open>update_poupanca\<close> are the same text up to the name of the constant and the digit in
  the error codes (\<^verbatim>\<open>0xF0001..\<close> and \<^verbatim>\<open>0xF0002..\<close>), the parameters \<open>const_name\<close>
  and \<open>code\<close> here. The non-regression check is called only when the old series is not
  empty. \<open>serialize_raises\<close> is an unexpected exception inside the \<^verbatim>\<open>try\<close> around
  \<^verbatim>\<open>serialize_js\<close>.
\<close>

definition persist :: "Config \<Rightarrow> world \<Rightarrow> fs \<Rightarrow> string \<Rightarrow> string \<Rightarrow> string \<Rightarrow> pairs \<Rightarrow> string
    \<Rightarrow> outcome \<times> fs \<times> line list" where
  "persist cfg w files target const_name code pairs_new nr_mode =
     (case read_js_pairs files target of
        Inl e \<Rightarrow> (Raises e, files, [])
      | Inr pairs_old \<Rightarrow>
          (let b = backup_file cfg w files target;
               bak = fst b;
               files1 = snd b;
               nr = (if pairs_old \<noteq> []
                     then non_regression cfg pairs_old pairs_new (code @ ''04'') nr_mode
                     else (True, []))
           in if pairs_old \<noteq> [] \<and> \<not> fst nr then (Returns 3, files1, snd nr)
              else if serialize_raises w then
                (Returns 4, files1, snd nr @ [err cfg (code @ ''03'') (Note ''exception'')])
              else
                (let js = serialize_js (fmt6 w) const_name pairs_new;
                     wr = write_atomic cfg w files1 target js (code @ ''05'')
                 in if \<not> fst wr then
                      (case bak of
                         None \<Rightarrow> (Returns 5, fst (snd wr), snd nr @ snd (snd wr))
                       | Some bk \<Rightarrow>
                           (let rs = restore_backup cfg w (fst (snd wr)) bk target (code @ ''06'')
                            in (Returns 5, fst (snd rs), snd nr @ snd (snd wr) @ snd (snd rs))))
                    else (Returns 0, fst (snd wr), snd nr @ snd (snd wr)))))"

text \<open>
  \<^verbatim>\<open>update_selic\<close>. The first stage yields the new pairs or ends the run; \<open>dirs_ok\<close> is
  \<^verbatim>\<open>ensure_dirs()\<close> not raising.
\<close>

definition selic_new_pairs :: "Config \<Rightarrow> world \<Rightarrow> int \<Rightarrow> string \<Rightarrow> (outcome \<times> line list) + pairs" where
  "selic_new_pairs cfg w start_year source =
     (if source = ''1178'' then
        (case fetch_selic1178_monthly_pairs cfg (http_year w) (daily w) (compound w)
                start_year (today_year w) of
           Inl e \<Rightarrow> Inl (Raises e, [])
         | Inr pairs_new \<Rightarrow>
             if pairs_new = [] then Inl (Returns 1, [err cfg ''0xF000101'' (Note ''1178 diaria vazia'')])
             else Inr pairs_new)
      else
        (case fetch_sgs_series (http_year w) (SGS_SERIE_SELIC_MENSAL cfg) start_year (today_year w) of
           Inl e \<Rightarrow> Inl (Raises e, [])
         | Inr items \<Rightarrow>
             if items = [] then Inl (Returns 1, [err cfg ''0xF000101'' NoExtra])
             else Inr (to_pairs items)))"

definition update_selic :: "Config \<Rightarrow> world \<Rightarrow> fs \<Rightarrow> int \<Rightarrow> string \<Rightarrow> string
    \<Rightarrow> outcome \<times> fs \<times> line list" where
  "update_selic cfg w files start_year nr_mode source =
     (if \<not> dirs_ok w then (Raises OSError, files, [])
      else
        (let target = join_root cfg (SELIC_JS_NAME cfg)
         in case selic_new_pairs cfg w start_year source of
              Inl (out, ls) \<Rightarrow> (out, files, ls)
            | Inr pairs_new \<Rightarrow>
                if pairs_new = [] then (Returns 2, files, [err cfg ''0xF000102'' NoExtra])
                else persist cfg w files target (SELIC_JS_CONST_NAME cfg) ''0xF0001'' pairs_new nr_mode))"

text \<open>
  \<^verbatim>\<open>update_poupanca\<close>. Its first three statements build the merged raw series: the new
  sub-series first, then the old one, both only when \<^verbatim>\<open>start_year <= 2012\<close>.
\<close>

definition poup_fetch :: "Config \<Rightarrow> world \<Rightarrow> int \<Rightarrow> string \<Rightarrow> string \<Rightarrow> string
    \<Rightarrow> (pyerror + item list) option" where
  "poup_fetch cfg w start_year serie start_date end_date =
     (if start_year \<le> 2012 then fetch_sgs_series_range (http_range w) serie start_date end_date 2
      else Some (Inr []))"

definition poup_items :: "Config \<Rightarrow> world \<Rightarrow> int \<Rightarrow> (pyerror + item list) option" where
  "poup_items cfg w start_year =
     (case poup_fetch cfg w start_year (SGS_SERIE_POUP_MENSAL cfg) ''01/06/2012'' ''25/09/2025'' of
        None \<Rightarrow> None
      | Some (Inl e) \<Rightarrow> Some (Inl e)
      | Some (Inr items_new) \<Rightarrow>
          (case poup_fetch cfg w start_year (SGS_SERIE_POUP_ANTIGA cfg) ''01/01/1991'' ''10/05/2012'' of
             None \<Rightarrow> None
           | Some (Inl e) \<Rightarrow> Some (Inl e)
           | Some (Inr items_old) \<Rightarrow> Some (merge_poup_series items_old items_new)))"

definition update_poupanca :: "Config \<Rightarrow> world \<Rightarrow> fs \<Rightarrow> int \<Rightarrow> string
    \<Rightarrow> (outcome \<times> fs \<times> line list) option" where
  "update_poupanca cfg w files start_year nr_mode =
     (if \<not> dirs_ok w then Some (Raises OSError, files, [])
      else
        (let target = join_root cfg (POUP_JS_NAME cfg)
         in case poup_items cfg w start_year of
              None \<Rightarrow> None
            | Some (Inl e) \<Rightarrow> Some (Raises e, files, [])
            | Some (Inr items) \<Rightarrow>
                if items = [] then Some (Returns 1, files, [err cfg ''0xF000201'' NoExtra])
                else
                  (let pairs_new = to_pairs items
                   in if pairs_new = [] then Some (Returns 2, files, [err cfg ''0xF000202'' NoExtra])
                      else Some (persist cfg w files target (POUP_JS_CONST_NAME cfg) ''0xF0002''
                                   pairs_new nr_mode))))"

section \<open>Properties of the non-regression check\<close>

lemma lost_empty_iff:
  "sorted_list_of_set (f ` set xs - f ` set ys) = [] \<longleftrightarrow> (\<forall>d \<in> set xs. \<exists>e \<in> set ys. f d = f e)"
proof -
  have "finite (f ` set xs - f ` set ys)" by simp
  then have "sorted_list_of_set (f ` set xs - f ` set ys) = [] \<longleftrightarrow> f ` set xs - f ` set ys = {}"
    by (rule sorted_list_of_set_eq_Nil_iff)
  then show ?thesis by auto
qed

text \<open>
  Claim C1. In month mode with the changed-values sub-mode off (the default), the check passes
  exactly when the year-month key of every date of the old series is the year-month key of
  some date of the new series; the verdict and the printed lines depend on the dates only,
  not on the values; a passing check prints nothing; and a failing check prints (in debug mode,
  the default) one line whose list is sorted, free of duplicates and holds exactly the keys
  of the old series that the new series lacks.
\<close>

theorem non_regression_month:
  "\<not> TREAT_CHANGED_OLD_VALUES_AS_ERROR cfg \<Longrightarrow>
   (fst (non_regression cfg old new code ''month'') \<longleftrightarrow>
      (\<forall>d \<in> set old. \<exists>e \<in> set new. month_key (fst d) = month_key (fst e)))
   \<and> (map fst old' = map fst old \<and> map fst new' = map fst new \<longrightarrow>
        non_regression cfg old' new' code ''month'' = non_regression cfg old new code ''month'')
   \<and> (fst (non_regression cfg old new code ''month'') \<longrightarrow>
        snd (non_regression cfg old new code ''month'') = [])
   \<and> (\<not> fst (non_regression cfg old new code ''month'') \<and> DEBUG cfg \<longrightarrow>
        (\<exists>lost. snd (non_regression cfg old new code ''month'') =
                   [ErrDebug code (LostPeriods lost (5 < length lost))]
           \<and> set lost = {k. (\<exists>d \<in> set old. k = month_key (fst d)) \<and>
                            (\<forall>e \<in> set new. k \<noteq> month_key (fst e))}
           \<and> sorted lost \<and> distinct lost))"
proof -
  assume off: "\<not> TREAT_CHANGED_OLD_VALUES_AS_ERROR cfg"
  let ?f = "\<lambda>p. month_key (fst p)"
  let ?L = "?f ` set old - ?f ` set new"
  let ?lost = "sorted_list_of_set ?L"
  have img: "month_key ` fst ` set xs = ?f ` set xs" for xs :: pairs
    by (simp add: image_image)
  have nr: "non_regression cfg old new code ''month'' =
      (if ?lost \<noteq> [] then (False, [err cfg code (LostPeriods ?lost (5 < length ?lost))]) else (True, []))"
    using off by (simp add: non_regression_def Let_def img)
  have e: "?lost = [] \<longleftrightarrow> (\<forall>d \<in> set old. \<exists>e \<in> set new. ?f d = ?f e)"
    by (rule lost_empty_iff)
  have c1: "fst (non_regression cfg old new code ''month'') \<longleftrightarrow>
      (\<forall>d \<in> set old. \<exists>e \<in> set new. month_key (fst d) = month_key (fst e))"
    unfolding nr using e by simp
  have keys: "fst ` set xs = set (map fst xs)" for xs :: pairs by simp
  have c2: "map fst old' = map fst old \<and> map fst new' = map fst new \<longrightarrow>
        non_regression cfg old' new' code ''month'' = non_regression cfg old new code ''month''"
    using off by (simp add: non_regression_def Let_def keys del: set_map)
  have c3: "fst (non_regression cfg old new code ''month'') \<longrightarrow>
        snd (non_regression cfg old new code ''month'') = []"
    unfolding nr by simp
  have sl: "set ?lost = {k. (\<exists>d \<in> set old. k = month_key (fst d)) \<and>
                            (\<forall>e \<in> set new. k \<noteq> month_key (fst e))}"
    by auto
  have c4: "\<not> fst (non_regression cfg old new code ''month'') \<and> DEBUG cfg \<longrightarrow>
        (\<exists>lost. snd (non_regression cfg old new code ''month'') =
                   [ErrDebug code (LostPeriods lost (5 < length lost))]
           \<and> set lost = {k. (\<exists>d \<in> set old. k = month_key (fst d)) \<and>
                            (\<forall>e \<in> set new. k \<noteq> month_key (fst e))}
           \<and> sorted lost \<and> distinct lost)"
  proof
    assume a: "\<not> fst (non_regression cfg old new code ''month'') \<and> DEBUG cfg"
    then have ne: "?lost \<noteq> []" unfolding nr by (auto split: if_splits)
    have "snd (non_regression cfg old new code ''month'') =
                   [ErrDebug code (LostPeriods ?lost (5 < length ?lost))]"
      unfolding nr using ne a by (simp add: err_def)
    with sl show "\<exists>lost. snd (non_regression cfg old new code ''month'') =
                   [ErrDebug code (LostPeriods lost (5 < length lost))]
           \<and> set lost = {k. (\<exists>d \<in> set old. k = month_key (fst d)) \<and>
                            (\<forall>e \<in> set new. k \<noteq> month_key (fst e))}
           \<and> sorted lost \<and> distinct lost"
      by (intro exI[of _ ?lost]) simp
  qed
  from c1 c2 c3 c4 show ?thesis by blast
qed


theorem non_regression_month_witness:
  "\<not> TREAT_CHANGED_OLD_VALUES_AS_ERROR CONFIG \<and> DEBUG CONFIG
   \<and> fst (non_regression CONFIG [(''2020-01-15'', Fin 1)] [(''2020-01-01'', Fin 2)] ''0xF000104'' ''month'')
   \<and> \<not> fst (non_regression CONFIG [(''2020-01-15'', Fin 1), (''2020-02-10'', Fin 2)]
              [(''2020-01-01'', Fin 3)] ''0xF000104'' ''month'')"
proof -
  have off: "\<not> TREAT_CHANGED_OLD_VALUES_AS_ERROR CONFIG" by (simp add: CONFIG_def)
  have dbg: "DEBUG CONFIG" by (simp add: CONFIG_def)
  have a: "fst (non_regression CONFIG [(''2020-01-15'', Fin 1)] [(''2020-01-01'', Fin 2)] ''0xF000104'' ''month'')"
    using non_regression_month [OF off, THEN conjunct1, of "[(''2020-01-15'', Fin 1)]" "[(''2020-01-01'', Fin 2)]" "''0xF000104''"]
    by (simp add: month_key_def)
  have b: "\<not> fst (non_regression CONFIG [(''2020-01-15'', Fin 1), (''2020-02-10'', Fin 2)]
              [(''2020-01-01'', Fin 3)] ''0xF000104'' ''month'')"
    using non_regression_month [OF off, THEN conjunct1, of "[(''2020-01-15'', Fin 1), (''2020-02-10'', Fin 2)]"
        "[(''2020-01-01'', Fin 3)]" "''0xF000104''"]
    by (simp add: month_key_def)
  from off dbg a b show ?thesis by simp
qed

section \<open>Facts about dicts and sorting\<close>

lemma fold_update_keys:
  "fst ` set (fold (\<lambda>(d, v) m. AList.update d v m) ps m) = fst ` set m \<union> fst ` set ps"
  by (induction ps arbitrary: m) (auto simp: AList.dom_update split: prod.splits)

lemma fold_update_distinct:
  "distinct (map fst m) \<Longrightarrow> distinct (map fst (fold (\<lambda>(d, v) m. AList.update d v m) ps m))"
  by (induction ps arbitrary: m) (auto simp: AList.distinct_update split: prod.splits)

lemma fold_update_map_of:
  "map_of (fold (\<lambda>(d, v) m. AList.update d v m) ps m) = map_of m ++ map_of (rev ps)"
  by (induction ps arbitrary: m) (auto simp: AList.update_conv' map_add_def fun_eq_iff split: prod.splits option.splits)

lemma dict_of_pairs_keys: "fst ` set (dict_of_pairs ps) = fst ` set ps"
  by (simp add: dict_of_pairs_def fold_update_keys)

lemma dict_of_pairs_distinct: "distinct (map fst (dict_of_pairs ps))"
  by (simp add: dict_of_pairs_def fold_update_distinct)

lemma dict_of_pairs_map_of: "map_of (dict_of_pairs ps) = map_of (rev ps)"
  by (simp add: dict_of_pairs_def fold_update_map_of)

lemma distinct_map_sort_key: "distinct (map f (sort_key f xs)) = distinct (map f xs)"
  by (induction xs) (simp_all add: distinct_insort_key)

lemma sort_key_fst_strict:
  fixes al :: "('k::linorder \<times> 'v) list"
  assumes "distinct (map fst al)"
  shows "sorted_wrt (<) (map fst (sort_key fst al))"
  using assms by (simp add: strict_sorted_iff distinct_map_sort_key)

lemma dedup_sort_strict: "sorted_wrt (<) (map fst (dedup_sort ps))"
  unfolding dedup_sort_def by (rule sort_key_fst_strict) (rule dict_of_pairs_distinct)

lemma dedup_sort_keys: "fst ` set (dedup_sort ps) = fst ` set ps"
  by (simp add: dedup_sort_def dict_of_pairs_keys)

lemma dedup_sort_map_of: "map_of (dedup_sort ps) = map_of (rev ps)"
proof -
  have "distinct (map fst (sort_key fst (dict_of_pairs ps)))"
    using sort_key_fst_strict [OF dict_of_pairs_distinct, of ps] by (simp add: strict_sorted_iff)
  moreover have "distinct (map fst (dict_of_pairs ps))" by (rule dict_of_pairs_distinct)
  moreover have "set (sort_key fst (dict_of_pairs ps)) = set (dict_of_pairs ps)" by simp
  ultimately have "map_of (sort_key fst (dict_of_pairs ps)) = map_of (dict_of_pairs ps)"
    by (rule map_of_inject_set [THEN iffD2])
  then show ?thesis by (simp add: dedup_sort_def dict_of_pairs_map_of)
qed

lemma strict_sorted_sort_id:
  fixes al :: "('k::linorder \<times> 'v) list"
  shows "sorted_wrt (<) (map fst al) \<Longrightarrow> sort_key fst al = al"
  by (simp add: strict_sorted_iff sorted_sort_id sort_key_id_if_sorted)

lemma update_fresh: "k \<notin> fst ` set m \<Longrightarrow> AList.update k v m = m @ [(k, v)]"
  by (induction m) auto

lemma fold_update_fresh:
  "distinct (map fst al) \<Longrightarrow> fst ` set m \<inter> fst ` set al = {} \<Longrightarrow>
   fold (\<lambda>(d, v) m. AList.update d v m) al m = m @ al"
proof (induction al arbitrary: m)
  case Nil
  then show ?case by simp
next
  case (Cons p al)
  obtain k v where p: "p = (k, v)" by (cases p)
  from Cons.prems have fresh: "k \<notin> fst ` set m" by (auto simp: p)
  have "fold (\<lambda>(d, v) m. AList.update d v m) (p # al) m
      = fold (\<lambda>(d, v) m. AList.update d v m) al (m @ [(k, v)])"
    by (simp add: p update_fresh [OF fresh])
  also have "\<dots> = (m @ [(k, v)]) @ al"
    using Cons.prems by (intro Cons.IH) (auto simp: p)
  finally show ?case by (simp add: p)
qed

lemma dict_of_pairs_id: "distinct (map fst al) \<Longrightarrow> dict_of_pairs al = al"
  using fold_update_fresh [of al "[]"] by (simp add: dict_of_pairs_def)

lemma dedup_sort_id: "sorted_wrt (<) (map fst ps) \<Longrightarrow> dedup_sort ps = ps"
  by (simp add: dedup_sort_def dict_of_pairs_id strict_sorted_sort_id strict_sorted_iff)

lemma to_pairs_loop_append: "to_pairs_loop (xs @ ys) = to_pairs_loop xs @ to_pairs_loop ys"
  by (induction xs) (auto split: option.splits)

lemma to_pairs_loop_mem: "r \<in> set items \<Longrightarrow> to_pair r = Some p \<Longrightarrow> p \<in> set (to_pairs_loop items)"
  by (induction items) (auto split: option.splits)

lemma to_pairs_loop_set: "set (to_pairs_loop items) = {p. \<exists>r \<in> set items. to_pair r = Some p}"
  by (induction items) (auto split: option.splits)

section \<open>Properties of the normalizer\<close>

lemma to_pairs_loop_map_filter: "to_pairs_loop items = List.map_filter to_pair items"
  by (induction items) (simp_all add: List.map_filter_simps split: option.splits)

lemma map_of_rev_filter_last:
  "map_of (rev ps) k
     = (if [p \<leftarrow> ps. fst p = k] = [] then None else Some (snd (last [p \<leftarrow> ps. fst p = k])))"
proof (induction ps rule: rev_induct)
  case Nil
  then show ?case by simp
next
  case (snoc p ps)
  show ?case
  proof (cases "fst p = k")
    case True
    then have "map_of (rev (ps @ [p])) k = Some (snd p)" by (cases p) simp
    moreover have "[p \<leftarrow> ps @ [p]. fst p = k] = [p \<leftarrow> ps. fst p = k] @ [p]" using True by simp
    ultimately show ?thesis by simp
  next
    case False
    then have "map_of (rev (ps @ [p])) k = map_of (rev ps) k" by (cases p) simp
    moreover have "[p \<leftarrow> ps @ [p]. fst p = k] = [p \<leftarrow> ps. fst p = k]" using False by simp
    ultimately show ?thesis using snoc by simp
  qed
qed

lemma to_pairs_lookup:
  "map_of (to_pairs items) k
     = (if [p \<leftarrow> List.map_filter to_pair items. fst p = k] = [] then None
        else Some (snd (last [p \<leftarrow> List.map_filter to_pair items. fst p = k])))"
  by (simp only: to_pairs_def dedup_sort_map_of map_of_rev_filter_last to_pairs_loop_map_filter)

lemma to_pair_parsed:
  assumes "data r = Some raw_date" and "valor r = Some raw_val"
    and "strptime raw_date = Some (y, m, d)" and "raw_val \<noteq> []"
    and "float_of_str (py_strip (replace_comma raw_val)) = Some v"
  shows "to_pair r = Some (year_text y @ ''-'' @ fmt02 m @ ''-01'', div100 v)"
proof -
  have "raw_date \<noteq> []" using assms(3) by (auto simp: strptime_def)
  then show ?thesis using assms by (simp add: to_pair_def strftime_month_start_def)
qed

lemma to_pair_dropped:
  assumes "data r = None \<or> data r = Some [] \<or> valor r = None \<or> valor r = Some []
        \<or> (\<exists>s. data r = Some s \<and> strptime s = None)
        \<or> (\<exists>s. valor r = Some s \<and> float_of_str (py_strip (replace_comma s)) = None)"
  shows "to_pair r = None"
  using assms by (auto simp: to_pair_def split: option.splits)

lemma to_pairs_drop: "to_pair r = None \<Longrightarrow> to_pairs (xs @ r # ys) = to_pairs (xs @ ys)"
  by (simp add: to_pairs_def to_pairs_loop_append)

lemma to_pairs_last_wins:
  assumes r: "to_pair r = Some (k, f)"
    and later: "\<forall>r' \<in> set ys. \<forall>p. to_pair r' = Some p \<longrightarrow> fst p \<noteq> k"
  shows "map_of (to_pairs (xs @ r # ys)) k = Some f"
proof -
  have "[p \<leftarrow> to_pairs_loop ys. fst p = k] = []"
    using later by (auto simp: filter_empty_conv to_pairs_loop_set)
  then have "[p \<leftarrow> to_pairs_loop (xs @ r # ys). fst p = k] = [p \<leftarrow> to_pairs_loop xs. fst p = k] @ [(k, f)]"
    using r by (simp add: to_pairs_loop_append)
  then show ?thesis
    by (simp add: to_pairs_def dedup_sort_map_of map_of_rev_filter_last)
qed


text \<open>
  The claim C4 as stated fails in two places. When two records of a list fall in the same
  month, the series holds one pair for that month, with the factor of the later record: the
  factor 0.005 of the record of 15/03/2021 is not in the result when a record of 20/03/2021
  follows it. And a date before the year 1000 is not written as an ISO date: 15/03/0999
  gives \<^verbatim>\<open>999-03-01\<close>.
\<close>

theorem to_pairs_same_month_and_early_year:
  "to_pairs [\<lparr>data = Some ''15/03/2021'', valor = Some ''0,50''\<rparr>,
             \<lparr>data = Some ''20/03/2021'', valor = Some ''0,70''\<rparr>]
     = [(''2021-03-01'', Fin (7 / 1000))]
   \<and> (''2021-03-01'', Fin (5 / 1000)) \<notin> set (to_pairs
         [\<lparr>data = Some ''15/03/2021'', valor = Some ''0,50''\<rparr>,
          \<lparr>data = Some ''20/03/2021'', valor = Some ''0,70''\<rparr>])
   \<and> strptime ''15/03/0999'' = Some (999, 3, 15)
   \<and> to_pairs [\<lparr>data = Some ''15/03/0999'', valor = Some ''0,50''\<rparr>] = [(''999-03-01'', Fin (5 / 1000))]"
proof -
  have a: "to_pairs [\<lparr>data = Some ''15/03/2021'', valor = Some ''0,50''\<rparr>,
             \<lparr>data = Some ''20/03/2021'', valor = Some ''0,70''\<rparr>]
     = [(''2021-03-01'', Fin (7 / 1000))]"
    by code_simp
  have b: "strptime ''15/03/0999'' = Some (999, 3, 15)" by code_simp
  have c: "to_pairs [\<lparr>data = Some ''15/03/0999'', valor = Some ''0,50''\<rparr>] = [(''999-03-01'', Fin (5 / 1000))]"
    by code_simp
  show ?thesis unfolding a using b c by simp
qed

text \<open>
  Claim C4, amended. A record whose date parses under day/month/year and whose value, commas
  turned into points and blanks stripped, parses as a float is mapped to the pair of the
  first day of its month, written \<^verbatim>\<open>%Y-%m-01\<close> (the four-digit ISO form from the year
  1000 on), and the value divided by 100; that pair is the one the series holds for its
  date unless a later record of the list falls on the same date. A record whose date or
  value is missing, empty or fails to parse yields no pair, and the list is normalized as
  if the record were not there. For every list the dates of the series are strictly
  ascending, and the factor under a date is that of the last record of the list mapped to
  this date. The record 15/03/2021 with value 0,50 alone gives 2021-03-01 and 0.005.
  The division is that of the exact reals.
\<close>

theorem to_pairs_normalizes:
  "(data r = Some raw_date \<and> valor r = Some raw_val \<and> strptime raw_date = Some (y, m, d)
      \<and> raw_val \<noteq> [] \<and> float_of_str (py_strip (replace_comma raw_val)) = Some v \<longrightarrow>
      to_pair r = Some (year_text y @ ''-'' @ fmt02 m @ ''-01'', div100 v)
      \<and> (1000 \<le> y \<longrightarrow> year_text y = fmt04 y)
      \<and> ((\<forall>r' \<in> set ys. \<forall>p. to_pair r' = Some p \<longrightarrow> fst p \<noteq> year_text y @ ''-'' @ fmt02 m @ ''-01'') \<longrightarrow>
            map_of (to_pairs (xs @ r # ys)) (year_text y @ ''-'' @ fmt02 m @ ''-01'') = Some (div100 v)))
   \<and> (data r = None \<or> data r = Some [] \<or> valor r = None \<or> valor r = Some []
        \<or> (\<exists>s. data r = Some s \<and> strptime s = None)
        \<or> (\<exists>s. valor r = Some s \<and> float_of_str (py_strip (replace_comma s)) = None) \<longrightarrow>
      to_pair r = None \<and> to_pairs (xs @ r # ys) = to_pairs (xs @ ys))
   \<and> sorted_wrt (<) (map fst (to_pairs items))
   \<and> map_of (to_pairs items) k
       = (if [p \<leftarrow> List.map_filter to_pair items. fst p = k] = [] then None
          else Some (snd (last [p \<leftarrow> List.map_filter to_pair items. fst p = k])))
   \<and> div100 (Fin x) = Fin (x / 100)
   \<and> to_pairs [\<lparr>data = Some ''15/03/2021'', valor = Some ''0,50''\<rparr>] = [(''2021-03-01'', Fin (5 / 1000))]"
proof -
  let ?iso = "year_text y @ ''-'' @ fmt02 m @ ''-01''"
  have a: "to_pair r = Some (?iso, div100 v)
      \<and> (1000 \<le> y \<longrightarrow> year_text y = fmt04 y)
      \<and> ((\<forall>r' \<in> set ys. \<forall>p. to_pair r' = Some p \<longrightarrow> fst p \<noteq> ?iso) \<longrightarrow>
            map_of (to_pairs (xs @ r # ys)) ?iso = Some (div100 v))"
    if h: "data r = Some raw_date \<and> valor r = Some raw_val \<and> strptime raw_date = Some (y, m, d)
      \<and> raw_val \<noteq> [] \<and> float_of_str (py_strip (replace_comma raw_val)) = Some v"
  proof -
    have tp: "to_pair r = Some (?iso, div100 v)"
      using h to_pair_parsed [of r raw_date raw_val y m d v] by blast
    have yt: "1000 \<le> y \<longrightarrow> year_text y = fmt04 y" by (simp add: year_text_def)
    have lw: "map_of (to_pairs (xs @ r # ys)) ?iso = Some (div100 v)"
      if "\<forall>r' \<in> set ys. \<forall>p. to_pair r' = Some p \<longrightarrow> fst p \<noteq> ?iso"
      using tp that by (rule to_pairs_last_wins)
    from tp yt lw show ?thesis by blast
  qed
  have b: "to_pair r = None \<and> to_pairs (xs @ r # ys) = to_pairs (xs @ ys)"
    if h: "data r = None \<or> data r = Some [] \<or> valor r = None \<or> valor r = Some []
        \<or> (\<exists>s. data r = Some s \<and> strptime s = None)
        \<or> (\<exists>s. valor r = Some s \<and> float_of_str (py_strip (replace_comma s)) = None)"
  proof -
    have "to_pair r = None" using h by (rule to_pair_dropped)
    then show ?thesis using to_pairs_drop by blast
  qed
  have c: "sorted_wrt (<) (map fst (to_pairs items))"
    unfolding to_pairs_def by (rule dedup_sort_strict)
  have e: "div100 (Fin x) = Fin (x / 100)" by simp
  have f: "to_pairs [\<lparr>data = Some ''15/03/2021'', valor = Some ''0,50''\<rparr>] = [(''2021-03-01'', Fin (5 / 1000))]"
    by code_simp
  from a b c to_pairs_lookup [of items k] e f show ?thesis by blast
qed

theorem to_pairs_normalizes_witness:
  "strptime ''20/03/2021'' = Some (2021, 3, 20)
   \<and> float_of_str (py_strip (replace_comma ''0,70'')) = Some (Fin (7 / 10))
   \<and> to_pair \<lparr>data = Some ''05/04/2021'', valor = Some ''0,30''\<rparr> = Some (''2021-04-01'', Fin (3 / 1000))
   \<and> to_pair \<lparr>data = Some ''20/03/2021'', valor = Some ''0,70''\<rparr> = Some (''2021-03-01'', Fin (7 / 1000))
   \<and> map_of (to_pairs ([\<lparr>data = Some ''15/03/2021'', valor = Some ''0,50''\<rparr>]
                          @ \<lparr>data = Some ''20/03/2021'', valor = Some ''0,70''\<rparr>
                          # [\<lparr>data = Some ''05/04/2021'', valor = Some ''0,30''\<rparr>]))
        ''2021-03-01'' = Some (Fin (7 / 1000))
   \<and> to_pairs ([\<lparr>data = Some ''15/03/2021'', valor = Some ''0,50''\<rparr>]
                  @ \<lparr>data = None, valor = Some ''1,0''\<rparr> # [])
      = to_pairs ([\<lparr>data = Some ''15/03/2021'', valor = Some ''0,50''\<rparr>] @ [])"
proof -
  have h1: "strptime ''20/03/2021'' = Some (2021, 3, 20)" by code_simp
  have h2: "float_of_str (py_strip (replace_comma ''0,70'')) = Some (Fin (7 / 10))" by code_simp
  have h3: "to_pair \<lparr>data = Some ''05/04/2021'', valor = Some ''0,30''\<rparr> = Some (''2021-04-01'', Fin (3 / 1000))"
    by code_simp
  have f1: "year_text 2021 = ''2021''" by code_simp
  have f2: "fmt02 3 = ''03''" by code_simp
  have f3: "fmt04 2021 = ''2021''" by code_simp
  note t = to_pairs_normalizes [where r = "\<lparr>data = Some ''20/03/2021'', valor = Some ''0,70''\<rparr>"
      and raw_date = "''20/03/2021''" and raw_val = "''0,70''" and y = 2021 and m = 3 and d = 20
      and v = "Fin (7 / 10)" and ys = "[\<lparr>data = Some ''05/04/2021'', valor = Some ''0,30''\<rparr>]"
      and xs = "[\<lparr>data = Some ''15/03/2021'', valor = Some ''0,50''\<rparr>]", THEN conjunct1]
  have a: "to_pair \<lparr>data = Some ''20/03/2021'', valor = Some ''0,70''\<rparr> = Some (''2021-03-01'', Fin (7 / 1000))
     \<and> map_of (to_pairs ([\<lparr>data = Some ''15/03/2021'', valor = Some ''0,50''\<rparr>]
                          @ \<lparr>data = Some ''20/03/2021'', valor = Some ''0,70''\<rparr>
                          # [\<lparr>data = Some ''05/04/2021'', valor = Some ''0,30''\<rparr>]))
        ''2021-03-01'' = Some (Fin (7 / 1000))"
    using t h1 h2 h3 by (simp add: f1 f2 f3)
  note u = to_pairs_normalizes [where r = "\<lparr>data = None, valor = Some ''1,0''\<rparr>"
      and xs = "[\<lparr>data = Some ''15/03/2021'', valor = Some ''0,50''\<rparr>]" and ys = "[]",
      THEN conjunct2, THEN conjunct1]
  have b: "to_pairs ([\<lparr>data = Some ''15/03/2021'', valor = Some ''0,50''\<rparr>]
                  @ \<lparr>data = None, valor = Some ''1,0''\<rparr> # [])
      = to_pairs ([\<lparr>data = Some ''15/03/2021'', valor = Some ''0,50''\<rparr>] @ [])"
    using u by simp
  from h1 h2 h3 a b show ?thesis by simp
qed

section \<open>Reading a file that holds a malformed number\<close>

text \<open>
  Claim C9 does not hold of the code. \<^verbatim>\<open>PAIR_RE\<close> accepts any run of digits and points
  as the factor, and \<^verbatim>\<open>read_js_pairs\<close> hands it to \<^verbatim>\<open>float\<close> unguarded (the
  normalizer and the aggregator guard the same call with \<^verbatim>\<open>try\<close>): on a file with the
  entry \<^verbatim>\<open>{ date: '2020-01-01', factor: 1.2.3 }\<close> reading raises \<^verbatim>\<open>ValueError\<close>, and so
  does every pipeline run on that file, which leaves the file as it was.
\<close>

theorem read_js_pairs_raises:
  "read_js_pairs [p \<mapsto> ''{ date: '' @ [CHR 0x27] @ ''2020-01-01'' @ [CHR 0x27] @ '', factor: 1.2.3 }''] p
     = Inl ValueError
   \<and> persist cfg w [p \<mapsto> ''{ date: '' @ [CHR 0x27] @ ''2020-01-01'' @ [CHR 0x27] @ '', factor: 1.2.3 }'']
        p const_name code pairs_new nr_mode
     = (Raises ValueError,
        [p \<mapsto> ''{ date: '' @ [CHR 0x27] @ ''2020-01-01'' @ [CHR 0x27] @ '', factor: 1.2.3 }''], [])"
proof -
  have m: "finditer (''{ date: '' @ [CHR 0x27] @ ''2020-01-01'' @ [CHR 0x27] @ '', factor: 1.2.3 }'')
      = [(''2020-01-01'', ''1.2.3'')]"
    by (simp add: match_pair_def expect_def skip_spaces_def quote_def date_text_def
        number_text_def number_char_def is_digit_def is_space_def)
  have f: "float_of_str ''1.2.3'' = None"
    by (simp add: float_of_str_def py_strip_def is_space_def parse_decimal_def is_digit_def Let_def)
  have r: "read_js_pairs [p \<mapsto> ''{ date: '' @ [CHR 0x27] @ ''2020-01-01'' @ [CHR 0x27] @ '', factor: 1.2.3 }''] p
     = Inl ValueError"
    unfolding read_js_pairs_def using m f by simp
  show ?thesis
    unfolding persist_def using r by simp
qed

section \<open>Idempotence of normalization\<close>

lemma to_pairs_loop_any_Dict: "to_pairs_loop_any (map Dict items) = Inr (to_pairs_loop items)"
  by (induction items) (auto split: option.splits)

lemma to_pairs_any_Dict: "to_pairs_any (map Dict items) = Inr (to_pairs items)"
  by (simp add: to_pairs_any_def to_pairs_loop_any_Dict to_pairs_def)

lemma to_pairs_any_Tuple: "ps \<noteq> [] \<Longrightarrow> to_pairs_any (map Tuple ps) = Inl AttributeError"
  by (cases ps) (simp_all add: to_pairs_any_def)

text \<open>
  The claim C6 as stated fails: the normalized series of the record 15/03/2021, 0,50 is the
  one pair 2021-03-01, 0.005; \<^verbatim>\<open>to_pairs\<close> applied to that series raises, and applied
  to a record carrying the texts of that pair it returns the empty series, as an ISO date
  is no day/month/year date.
\<close>

theorem to_pairs_not_idempotent:
  "to_pairs [\<lparr>data = Some ''15/03/2021'', valor = Some ''0,50''\<rparr>] = [(''2021-03-01'', Fin (1 / 200))]
   \<and> to_pairs_any (map Tuple (to_pairs [\<lparr>data = Some ''15/03/2021'', valor = Some ''0,50''\<rparr>]))
       = Inl AttributeError
   \<and> to_pairs [\<lparr>data = Some ''2021-03-01'', valor = Some ''0.005''\<rparr>] = []"
proof -
  have a: "to_pairs [\<lparr>data = Some ''15/03/2021'', valor = Some ''0,50''\<rparr>] = [(''2021-03-01'', Fin (1 / 200))]"
    by code_simp
  have b: "to_pairs [\<lparr>data = Some ''2021-03-01'', valor = Some ''0.005''\<rparr>] = []"
    by code_simp
  show ?thesis unfolding a using a b by (simp add: to_pairs_any_def)
qed

text \<open>
  Claim C6, amended. The result of the normalizer is in normal form: de-duplicating it by
  date and sorting it again, which is the normalizer's last step, returns it unchanged.
  The normalizer itself takes raw records (on which the typed and the untyped model agree)
  and raises on a non-empty normalized series.
\<close>

theorem dedup_sort_to_pairs:
  "dedup_sort (to_pairs items) = to_pairs items
   \<and> to_pairs_any (map Dict items) = Inr (to_pairs items)
   \<and> (to_pairs items \<noteq> [] \<longrightarrow> to_pairs_any (map Tuple (to_pairs items)) = Inl AttributeError)"
proof -
  have "sorted_wrt (<) (map fst (to_pairs items))"
    unfolding to_pairs_def by (rule dedup_sort_strict)
  then have "dedup_sort (to_pairs items) = to_pairs items" by (rule dedup_sort_id)
  then show ?thesis by (simp add: to_pairs_any_Dict to_pairs_any_Tuple)
qed

theorem dedup_sort_to_pairs_witness:
  "to_pairs [\<lparr>data = Some ''15/03/2021'', valor = Some ''0,50''\<rparr>] \<noteq> []
   \<and> to_pairs_any (map Tuple (to_pairs [\<lparr>data = Some ''15/03/2021'', valor = Some ''0,50''\<rparr>]))
       = Inl AttributeError
   \<and> dedup_sort [(''2021-03-01'', Fin (1 / 200))] = [(''2021-03-01'', Fin (1 / 200))]"
proof -
  have a: "to_pairs [\<lparr>data = Some ''15/03/2021'', valor = Some ''0,50''\<rparr>] = [(''2021-03-01'', Fin (1 / 200))]"
    by code_simp
  then have ne: "to_pairs [\<lparr>data = Some ''15/03/2021'', valor = Some ''0,50''\<rparr>] \<noteq> []" by simp
  from dedup_sort_to_pairs [of "[\<lparr>data = Some ''15/03/2021'', valor = Some ''0,50''\<rparr>]"] ne a
  show ?thesis by simp
qed

section \<open>The order of the dates of a series\<close>

lemma month_key_iso_length: "length (month_key_iso d) = 7"
  by (cases d) (simp add: month_key_iso_def fmt04_def fmt02_def)

lemma daily_entry_key_length: "daily_entry dl it = Some (key, fd) \<Longrightarrow> length key = 7"
  by (auto simp: daily_entry_def month_key_iso_length split: option.splits if_splits)

lemma bucket_append_keys: "fst ` set (bucket_append k fd b) = insert k (fst ` set b)"
  by (simp add: bucket_append_def AList.dom_update)

lemma bucket_append_distinct: "distinct (map fst b) \<Longrightarrow> distinct (map fst (bucket_append k fd b))"
  by (simp add: bucket_append_def AList.distinct_update)

lemma fill_buckets_distinct:
  "distinct (map fst b) \<Longrightarrow> distinct (map fst (fill_buckets dl items b))"
  by (induction items arbitrary: b) (auto simp: bucket_append_distinct split: option.splits)

lemma fill_buckets_key_length:
  "\<forall>k \<in> fst ` set b. length k = 7 \<Longrightarrow> \<forall>k \<in> fst ` set (fill_buckets dl items b). length k = 7"
proof (induction items arbitrary: b)
  case Nil
  then show ?case by simp
next
  case (Cons it items)
  show ?case
  proof (cases "daily_entry dl it")
    case None
    then show ?thesis using Cons by simp
  next
    case (Some e)
    obtain key fd where e: "e = (key, fd)" by (cases e)
    have "length key = 7" using Some e daily_entry_key_length by simp
    then have "\<forall>k \<in> fst ` set (bucket_append key fd b). length k = 7"
      using Cons.prems by (simp add: bucket_append_keys)
    then have "\<forall>k \<in> fst ` set (fill_buckets dl items (bucket_append key fd b)). length k = 7"
      by (rule Cons.IH)
    then show ?thesis using Some e by simp
  qed
qed

lemma append_less_same_length:
  fixes a b :: "'a::linorder list"
  shows "length a = length b \<Longrightarrow> a @ s < b @ s \<longleftrightarrow> a < b"
  by (induction a b rule: list_induct2) auto

lemma strict_sorted_append_suffix:
  fixes ks :: "'a::linorder list list"
  assumes "sorted_wrt (<) ks" and "\<forall>k \<in> set ks. length k = n"
  shows "sorted_wrt (<) (map (\<lambda>k. k @ s) ks)"
proof -
  have "sorted_wrt (\<lambda>x y. x @ s < y @ s) ks"
    using assms(1)
  proof (rule sorted_wrt_mono_rel [rotated])
    fix x y assume "x \<in> set ks" "y \<in> set ks" "x < y"
    then show "x @ s < y @ s" using assms(2) by (simp add: append_less_same_length)
  qed
  then show ?thesis by (simp add: sorted_wrt_map)
qed

lemma monthly_pairs_strict: "sorted_wrt (<) (map fst (monthly_pairs dl cp items))"
proof -
  let ?b = "fill_buckets dl items []"
  have d: "distinct (map fst ?b)" by (rule fill_buckets_distinct) simp
  have l: "\<forall>k \<in> fst ` set ?b. length k = 7" by (rule fill_buckets_key_length) simp
  have s: "sorted_wrt (<) (sort (map fst ?b))" using d by (simp add: strict_sorted_iff)
  have "sorted_wrt (<) (map (\<lambda>k. k @ ''-01'') (sort (map fst ?b)))"
    using s by (rule strict_sorted_append_suffix [where n = 7]) (use l in simp)
  moreover have "map fst (monthly_pairs dl cp items) = map (\<lambda>k. k @ ''-01'') (sort (map fst ?b))"
    by (simp add: monthly_pairs_def Let_def comp_def)
  ultimately show ?thesis by simp
qed

lemma pairs_of_matches_dates: "pairs_of_matches ms = Inr out \<Longrightarrow> map fst out = map fst ms"
  by (induction ms arbitrary: out) (auto split: option.splits sum.splits)

lemma read_js_pairs_sorted: "read_js_pairs files path = Inr ps \<Longrightarrow> sorted (map fst ps)"
  by (auto simp: read_js_pairs_def split: option.splits sum.splits)

lemma read_js_pairs_strict:
  assumes "read_js_pairs files path = Inr ps" and "files path = Some content"
    and "distinct (map fst (finditer content))"
  shows "sorted_wrt (<) (map fst ps)"
proof -
  from assms(1,2) obtain out where o: "pairs_of_matches (finditer content) = Inr out"
    and ps: "ps = sort_key fst out"
    by (auto simp: read_js_pairs_def split: sum.splits)
  have "distinct (map fst out)" using pairs_of_matches_dates [OF o] assms(3) by simp
  then show ?thesis unfolding ps by (rule sort_key_fst_strict)
qed

text \<open>
  The claim C8 as stated fails for the reader: \<^verbatim>\<open>read_js_pairs\<close> sorts the entries it
  finds and removes none, so a file with two entries of one date yields a series in which
  that date occurs twice.
\<close>

theorem read_js_pairs_duplicate_dates:
  "read_js_pairs [''./selic_data.js'' \<mapsto> ''  { date: '' @ [CHR 0x27] @ ''2020-01-01'' @ [CHR 0x27] @ '', factor: 1.000000 },''
                       @ [CHR 0x0A] @
                       ''  { date: '' @ [CHR 0x27] @ ''2020-01-01'' @ [CHR 0x27] @ '', factor: 2.000000 },''] ''./selic_data.js''
     = Inr [(''2020-01-01'', Fin 1), (''2020-01-01'', Fin 2)]
   \<and> \<not> distinct (map fst [(''2020-01-01'', Fin 1), (''2020-01-01'', Fin 2)])"
proof -
  have m: "finditer (''  { date: '' @ [CHR 0x27] @ ''2020-01-01'' @ [CHR 0x27] @ '', factor: 1.000000 },''
                       @ [CHR 0x0A] @
                       ''  { date: '' @ [CHR 0x27] @ ''2020-01-01'' @ [CHR 0x27] @ '', factor: 2.000000 },'')
      = [(''2020-01-01'', ''1.000000''), (''2020-01-01'', ''2.000000'')]"
    by (simp add: match_pair_def expect_def skip_spaces_def quote_def date_text_def
        number_text_def number_char_def is_digit_def is_space_def)
  have f1: "float_of_str ''1.000000'' = Some (Fin 1)" by code_simp
  have f2: "float_of_str ''2.000000'' = Some (Fin 2)" by code_simp
  show ?thesis unfolding read_js_pairs_def using m f1 f2 by simp
qed


text \<open>
  Claim C8, amended. The normalizer, the daily-to-monthly aggregator (alone and behind the
  fetch) and the merger followed by the normalizer yield series whose dates are strictly
  ascending, hence unique. The reader yields the entries of the file in ascending order of
  date, strictly so when no date occurs twice among the entries of the file.
\<close>

theorem series_strictly_ascending:
  "sorted_wrt (<) (map fst (to_pairs items))
   \<and> sorted_wrt (<) (map fst (monthly_pairs dl cp items))
   \<and> (fetch_selic1178_monthly_pairs cfg http dl cp start_year this_year = Inr ps \<longrightarrow>
        sorted_wrt (<) (map fst ps))
   \<and> (merge_poup_series items_old items_new = Inr merged \<longrightarrow>
        sorted_wrt (<) (map fst (to_pairs merged)))
   \<and> (read_js_pairs files path = Inr ps' \<longrightarrow>
        sorted (map fst ps')
        \<and> (\<forall>content. files path = Some content \<and> distinct (map fst (finditer content)) \<longrightarrow>
              sorted_wrt (<) (map fst ps')))"
proof -
  have a: "sorted_wrt (<) (map fst (to_pairs xs))" for xs
    unfolding to_pairs_def by (rule dedup_sort_strict)
  have b: "sorted_wrt (<) (map fst (monthly_pairs dl cp items))"
    by (rule monthly_pairs_strict)
  have c: "sorted_wrt (<) (map fst ps)"
    if "fetch_selic1178_monthly_pairs cfg http dl cp start_year this_year = Inr ps"
  proof -
    from that obtain its where "ps = (if its = [] then [] else monthly_pairs dl cp its)"
      by (auto simp: fetch_selic1178_monthly_pairs_def split: sum.splits)
    then show ?thesis by (simp add: monthly_pairs_strict)
  qed
  have d: "sorted (map fst ps') \<and> (\<forall>content. files path = Some content \<and>
        distinct (map fst (finditer content)) \<longrightarrow> sorted_wrt (<) (map fst ps'))"
    if "read_js_pairs files path = Inr ps'"
    using that read_js_pairs_sorted [OF that] read_js_pairs_strict [OF that] by blast
  from a b c d show ?thesis by blast
qed

theorem series_strictly_ascending_witness:
  "fetch_selic1178_monthly_pairs CONFIG
      (\<lambda>s y. Some [\<lparr>data = Some ''02/01/2020'', valor = Some ''4,40''\<rparr>,
                    \<lparr>data = Some ''03/02/2020'', valor = Some ''4,15''\<rparr>])
      (\<lambda>v. v) (\<lambda>l. Fin 0) 2020 2020
     = Inr [(''2020-01-01'', Fin 0), (''2020-02-01'', Fin 0)]
   \<and> sorted_wrt (<) (map fst [(''2020-01-01'', Fin 0 :: pyfloat), (''2020-02-01'', Fin 0)])
   \<and> merge_poup_series [\<lparr>data = Some ''10/05/2012'', valor = Some ''0,50''\<rparr>]
        [\<lparr>data = Some ''01/06/2012'', valor = Some ''0,40''\<rparr>]
     = Inr [\<lparr>data = Some ''01/05/2012'', valor = Some ''0,50''\<rparr>,
            \<lparr>data = Some ''01/06/2012'', valor = Some ''0,40''\<rparr>]
   \<and> sorted_wrt (<) (map fst (to_pairs [\<lparr>data = Some ''01/05/2012'', valor = Some ''0,50''\<rparr>,
            \<lparr>data = Some ''01/06/2012'', valor = Some ''0,40''\<rparr>]))
   \<and> read_js_pairs [''f'' \<mapsto> ''{ date: '' @ [CHR 0x27] @ ''2020-01-01'' @ [CHR 0x27] @ '', factor: 1.000000 }''] ''f''
     = Inr [(''2020-01-01'', Fin 1)]
   \<and> sorted_wrt (<) (map fst [(''2020-01-01'', Fin 1 :: pyfloat)])"
proof -
  have h1: "fetch_selic1178_monthly_pairs CONFIG
      (\<lambda>s y. Some [\<lparr>data = Some ''02/01/2020'', valor = Some ''4,40''\<rparr>,
                    \<lparr>data = Some ''03/02/2020'', valor = Some ''4,15''\<rparr>])
      (\<lambda>v. v) (\<lambda>l. Fin 0) 2020 2020
     = Inr [(''2020-01-01'', Fin 0), (''2020-02-01'', Fin 0)]"
    by code_simp
  have h2: "merge_poup_series [\<lparr>data = Some ''10/05/2012'', valor = Some ''0,50''\<rparr>]
        [\<lparr>data = Some ''01/06/2012'', valor = Some ''0,40''\<rparr>]
     = Inr [\<lparr>data = Some ''01/05/2012'', valor = Some ''0,50''\<rparr>,
            \<lparr>data = Some ''01/06/2012'', valor = Some ''0,40''\<rparr>]"
    by code_simp
  have m: "finditer (''{ date: '' @ [CHR 0x27] @ ''2020-01-01'' @ [CHR 0x27] @ '', factor: 1.000000 }'')
      = [(''2020-01-01'', ''1.000000'')]"
    by (simp add: match_pair_def expect_def skip_spaces_def quote_def date_text_def
        number_text_def number_char_def is_digit_def is_space_def)
  have f1: "float_of_str ''1.000000'' = Some (Fin 1)" by code_simp
  have h3: "read_js_pairs [''f'' \<mapsto> ''{ date: '' @ [CHR 0x27] @ ''2020-01-01'' @ [CHR 0x27] @ '', factor: 1.000000 }''] ''f''
     = Inr [(''2020-01-01'', Fin 1)]"
    unfolding read_js_pairs_def using m f1 by simp
  have d: "distinct (map fst (finditer (''{ date: '' @ [CHR 0x27] @ ''2020-01-01'' @ [CHR 0x27] @ '', factor: 1.000000 }'')))"
    unfolding m by simp
  note t = series_strictly_ascending [where cfg = CONFIG
      and http = "\<lambda>s y. Some [\<lparr>data = Some ''02/01/2020'', valor = Some ''4,40''\<rparr>,
                    \<lparr>data = Some ''03/02/2020'', valor = Some ''4,15''\<rparr>]"
      and dl = "\<lambda>v. v" and cp = "\<lambda>l. Fin 0" and start_year = 2020 and this_year = 2020
      and ps = "[(''2020-01-01'', Fin 0), (''2020-02-01'', Fin 0)]"
      and items_old = "[\<lparr>data = Some ''10/05/2012'', valor = Some ''0,50''\<rparr>]"
      and items_new = "[\<lparr>data = Some ''01/06/2012'', valor = Some ''0,40''\<rparr>]"
      and merged = "[\<lparr>data = Some ''01/05/2012'', valor = Some ''0,50''\<rparr>,
            \<lparr>data = Some ''01/06/2012'', valor = Some ''0,40''\<rparr>]"
      and files = "[''f'' \<mapsto> ''{ date: '' @ [CHR 0x27] @ ''2020-01-01'' @ [CHR 0x27] @ '', factor: 1.000000 }'']"
      and path = "''f''" and ps' = "[(''2020-01-01'', Fin 1)]"]
  have w1: "sorted_wrt (<) (map fst [(''2020-01-01'', Fin 0 :: pyfloat), (''2020-02-01'', Fin 0)])"
    using t h1 by blast
  have w2: "sorted_wrt (<) (map fst (to_pairs [\<lparr>data = Some ''01/05/2012'', valor = Some ''0,50''\<rparr>,
            \<lparr>data = Some ''01/06/2012'', valor = Some ''0,40''\<rparr>]))"
    using t h2 by blast
  have w3: "sorted_wrt (<) (map fst [(''2020-01-01'', Fin 1 :: pyfloat)])"
    using t h3 d by (simp del: sorted_wrt.simps)
  from h1 h2 h3 w1 w2 w3 show ?thesis by blast
qed

section \<open>De-duplication and order in the fetcher\<close>

text \<open>
  What the fetcher owes its callers, in the words of the specification: one record per
  date string, with the value of the last record of that date among all the records
  received, for every date that is present and not empty; and the records in ascending
  order of their parsed dates.
\<close>

definition deduped_by_date :: "item list \<Rightarrow> item list \<Rightarrow> bool" where
  "deduped_by_date all_items res \<longleftrightarrow>
     distinct (map data res)
     \<and> (\<forall>r \<in> set res. nonempty_key (data r) \<and> (\<exists>x \<in> set all_items. data x = data r)
            \<and> valor r = valor (last [x \<leftarrow> all_items. data x = data r]))
     \<and> (\<forall>x \<in> set all_items. nonempty_key (data x) \<longrightarrow> data x \<in> data ` set res)"

definition ascending_by_date :: "item list \<Rightarrow> bool" where
  "ascending_by_date res \<longleftrightarrow> (\<exists>ds. map parse_date res = map Inr ds \<and> sorted ds)"


lemma fold_update_cond:
  "fold (\<lambda>x m. if P x then AList.update (k x) (v x) m else m) xs m0
     = fold (\<lambda>(d, v) m. AList.update d v m) (map (\<lambda>x. (k x, v x)) (filter P xs)) m0"
  by (induction xs arbitrary: m0) simp_all

lemma map_of_rev_last:
  "map_of (rev (map (\<lambda>x. (k x, v x)) xs)) key
     = (if \<exists>x \<in> set xs. k x = key then Some (v (last [x \<leftarrow> xs. k x = key])) else None)"
  by (induction xs rule: rev_induct) auto

lemma dict_lookup_last:
  "map_of (fold (\<lambda>(d, v) m. AList.update d v m) (map (\<lambda>x. (k x, v x)) xs) []) key
     = (if \<exists>x \<in> set xs. k x = key then Some (v (last [x \<leftarrow> xs. k x = key])) else None)"
  by (simp add: fold_update_map_of map_of_rev_last)

lemma dict_keys_image:
  "fst ` set (fold (\<lambda>(d, v) m. AList.update d v m) (map (\<lambda>x. (k x, v x)) xs) []) = k ` set xs"
  by (simp add: fold_update_keys image_image)

lemma dict_distinct:
  "distinct (map fst (fold (\<lambda>(d, v) m. AList.update d v m) ps []))"
  by (rule fold_update_distinct) simp

lemma records_of_dict:
  assumes d: "distinct (map fst seen)"
    and look: "\<And>key. map_of seen key
        = (if \<exists>x \<in> set xs. data x = key then Some (valor (last [x \<leftarrow> xs. data x = key])) else None)"
    and out: "out = map (\<lambda>(k, v). \<lparr>data = k, valor = v\<rparr>) (filter (\<lambda>(k, v). Q k) seen)"
    and q: "\<And>k. Q k \<Longrightarrow> nonempty_key k" and q': "\<And>x. x \<in> set xs \<Longrightarrow> nonempty_key (data x) \<Longrightarrow> Q (data x)"
  shows "deduped_by_date xs out"
proof -
  have md: "map data out = map fst (filter (\<lambda>(k, v). Q k) seen)"
    unfolding out by (induction seen) auto
  have p1: "distinct (map data out)"
    unfolding md using d by (simp add: distinct_map_filter)
  have mem: "r \<in> set out \<longleftrightarrow> Q (data r) \<and> map_of seen (data r) = Some (valor r)" for r
  proof -
    have "r \<in> set out \<longleftrightarrow> (data r, valor r) \<in> set seen \<and> Q (data r)"
      unfolding out by (cases r) (auto simp: image_iff)
    then show ?thesis using d by auto
  qed
  have p2: "\<forall>r \<in> set out. nonempty_key (data r) \<and> (\<exists>x \<in> set xs. data x = data r)
            \<and> valor r = valor (last [x \<leftarrow> xs. data x = data r])"
  proof
    fix r assume "r \<in> set out"
    then have a: "Q (data r)" and b: "map_of seen (data r) = Some (valor r)" using mem by auto
    from b look [of "data r"] have "\<exists>x \<in> set xs. data x = data r"
      by (auto split: if_splits)
    moreover from this b look [of "data r"] have "valor r = valor (last [x \<leftarrow> xs. data x = data r])"
      by (auto split: if_splits)
    ultimately show "nonempty_key (data r) \<and> (\<exists>x \<in> set xs. data x = data r)
            \<and> valor r = valor (last [x \<leftarrow> xs. data x = data r])"
      using q [OF a] by simp
  qed
  have p3: "\<forall>x \<in> set xs. nonempty_key (data x) \<longrightarrow> data x \<in> data ` set out"
  proof (intro ballI impI)
    fix x assume x: "x \<in> set xs" and n: "nonempty_key (data x)"
    let ?r = "\<lparr>data = data x, valor = valor (last [y \<leftarrow> xs. data y = data x])\<rparr>"
    have "map_of seen (data x) = Some (valor (last [y \<leftarrow> xs. data y = data x]))"
      using look [of "data x"] x by auto
    then have "?r \<in> set out" using mem [of ?r] q' [OF x n] by simp
    moreover have "data ?r = data x" by simp
    ultimately show "data x \<in> data ` set out" by (metis imageI)
  qed
  from p1 p2 p3 show ?thesis unfolding deduped_by_date_def by blast
qed

lemma distinct_map_insort_key:
  "distinct (map g (insort_key f x xs)) = (g x \<notin> g ` set xs \<and> distinct (map g xs))"
  by (induction xs) (auto simp: set_insort_key)

lemma distinct_map_sort_key_any: "distinct (map g (sort_key f xs)) = distinct (map g xs)"
  by (induction xs) (simp_all add: distinct_map_insort_key)

lemma keyed_Some: "keyed it = Some p \<longleftrightarrow> parse_date it = Inr (fst p) \<and> snd p = it"
  by (cases "parse_date it"; cases p) (auto simp: keyed_def)


lemma map_filter_Cons:
  "List.map_filter f (x # xs) = (case f x of None \<Rightarrow> List.map_filter f xs | Some y \<Rightarrow> y # List.map_filter f xs)"
  by (simp add: List.map_filter_simps)

lemma set_map_filter_keyed: "set (List.map_filter keyed out) = {p. snd p \<in> set out \<and> parse_date (snd p) = Inr (fst p)}"
proof (induction out)
  case Nil
  then show ?case by (simp add: List.map_filter_simps)
next
  case (Cons x xs)
  show ?case
  proof (cases "keyed x")
    case None
    then have "\<And>p. snd p = x \<Longrightarrow> parse_date (snd p) \<noteq> Inr (fst p)"
      using keyed_Some [of x] by (metis option.distinct(1))
    then show ?thesis using None Cons by (auto simp: map_filter_Cons)
  next
    case (Some q)
    then have q: "parse_date x = Inr (fst q)" "snd q = x" using keyed_Some by auto
    have "\<And>p. snd p = x \<Longrightarrow> parse_date (snd p) = Inr (fst p) \<Longrightarrow> p = q"
      using q by (auto simp: prod_eq_iff)
    then show ?thesis using Some Cons q by (auto simp: map_filter_Cons)
  qed
qed

lemma map_snd_keyed:
  "\<forall>it \<in> set out. keyed it \<noteq> None \<Longrightarrow> map snd (List.map_filter keyed out) = out"
proof (induction out)
  case Nil
  then show ?case by (simp add: List.map_filter_simps)
next
  case (Cons x xs)
  then obtain q where q: "keyed x = Some q" by auto
  then have "snd q = x" using keyed_Some by auto
  then show ?case using q Cons by (simp add: map_filter_Cons)
qed

lemma sort_by_date_props:
  assumes "sort_by_date out = Inr res"
  shows "set res = set out" and "distinct (map data res) = distinct (map data out)"
    and "ascending_by_date res"
proof -
  let ?L = "List.map_filter keyed out"
  from assms have all: "list_all (\<lambda>it. keyed it \<noteq> None) out" and res: "res = map snd (sort_key fst ?L)"
    by (auto simp: sort_by_date_def split: if_splits)
  have snd_L: "map snd ?L = out"
    using all by (intro map_snd_keyed) (simp add: list_all_iff)
  show "set res = set out"
    unfolding res using snd_L by (metis set_map set_sort)
  show "distinct (map data res) = distinct (map data out)"
  proof -
    have "distinct (map data res) = distinct (map (data \<circ> snd) (sort_key fst ?L))"
      by (simp add: res)
    also have "\<dots> = distinct (map (data \<circ> snd) ?L)" by (rule distinct_map_sort_key_any)
    also have "\<dots> = distinct (map data out)" using snd_L by (metis map_map)
    finally show ?thesis .
  qed
  have el: "\<forall>p \<in> set (sort_key fst ?L). parse_date (snd p) = Inr (fst p)"
    by (simp add: set_map_filter_keyed)
  have "map parse_date res = map Inr (map fst (sort_key fst ?L))"
    unfolding res using el by simp
  moreover have "sorted (map fst (sort_key fst ?L))" by (rule sorted_sort_key)
  ultimately show "ascending_by_date res" unfolding ascending_by_date_def by blast
qed


lemma deduped_by_date_cong:
  "deduped_by_date xs out \<Longrightarrow> set res = set out \<Longrightarrow> distinct (map data res) = distinct (map data out)
   \<Longrightarrow> deduped_by_date xs res"
  unfolding deduped_by_date_def by simp

lemma sorted_records:
  assumes d: "deduped_by_date xs out" and s: "sort_by_date out = Inr res"
  shows "deduped_by_date xs res \<and> ascending_by_date res"
  using deduped_by_date_cong [OF d sort_by_date_props(1) [OF s] sort_by_date_props(2) [OF s]]
    sort_by_date_props(3) [OF s] by simp

lemma deduped_by_date_source:
  "deduped_by_date xs out \<Longrightarrow> r \<in> set out \<Longrightarrow>
     nonempty_key (data r) \<and> (\<exists>x \<in> set xs. data x = data r)"
  unfolding deduped_by_date_def by blast

lemma parse_date_cong: "data x = data y \<Longrightarrow> parse_date x = parse_date y"
  by (simp add: parse_date_def)



lemma range_records_eq:
  "range_records xs = map (\<lambda>(k, v). \<lparr>data = k, valor = v\<rparr>)
     (fold (\<lambda>(d, v) m. AList.update d v m)
        (map (\<lambda>x. (data x, valor x)) (filter (\<lambda>x. nonempty_key (data x)) xs)) [])"
  unfolding range_records_def Let_def fold_update_cond ..



lemma filter_nonempty_same:
  "nonempty_key k \<Longrightarrow> [x \<leftarrow> xs. nonempty_key (data x) \<and> data x = k] = [x \<leftarrow> xs. data x = k]"
  by (induction xs) auto

lemma deduped_by_date_filter:
  assumes "deduped_by_date (filter (\<lambda>x. nonempty_key (data x)) xs) out"
  shows "deduped_by_date xs out"
proof -
  let ?ys = "filter (\<lambda>x. nonempty_key (data x)) xs"
  from assms have p1: "distinct (map data out)"
    and p2: "\<forall>r \<in> set out. nonempty_key (data r) \<and> (\<exists>x \<in> set ?ys. data x = data r)
            \<and> valor r = valor (last [x \<leftarrow> ?ys. data x = data r])"
    and p3: "\<forall>x \<in> set ?ys. nonempty_key (data x) \<longrightarrow> data x \<in> data ` set out"
    unfolding deduped_by_date_def by blast+
  have q2: "\<forall>r \<in> set out. nonempty_key (data r) \<and> (\<exists>x \<in> set xs. data x = data r)
            \<and> valor r = valor (last [x \<leftarrow> xs. data x = data r])"
  proof
    fix r assume r: "r \<in> set out"
    with p2 have n: "nonempty_key (data r)" and e: "\<exists>x \<in> set ?ys. data x = data r"
      and v: "valor r = valor (last [x \<leftarrow> ?ys. data x = data r])" by blast+
    have "[x \<leftarrow> ?ys. data x = data r] = [x \<leftarrow> xs. data x = data r]"
      using filter_nonempty_same [OF n, of xs] by (simp add: conj_commute)
    with v have "valor r = valor (last [x \<leftarrow> xs. data x = data r])" by simp
    moreover from e have "\<exists>x \<in> set xs. data x = data r" by auto
    ultimately show "nonempty_key (data r) \<and> (\<exists>x \<in> set xs. data x = data r)
            \<and> valor r = valor (last [x \<leftarrow> xs. data x = data r])" using n by blast
  qed
  have q3: "\<forall>x \<in> set xs. nonempty_key (data x) \<longrightarrow> data x \<in> data ` set out"
    using p3 by auto
  from p1 q2 q3 show ?thesis unfolding deduped_by_date_def by blast
qed

lemma range_out_deduped: "deduped_by_date xs (range_records xs)"
proof -
  let ?ys = "filter (\<lambda>x. nonempty_key (data x)) xs"
  let ?seen = "fold (\<lambda>(d, v) m. AList.update d v m) (map (\<lambda>x. (data x, valor x)) ?ys) []"
  have "fst ` set ?seen = data ` set ?ys" by (rule dict_keys_image)
  then have keys: "\<forall>p \<in> set ?seen. nonempty_key (fst p)" by force
  have f: "filter (\<lambda>(k, v). nonempty_key k) ?seen = ?seen"
  proof (rule filter_True)
    show "\<forall>x \<in> set ?seen. case x of (k, v) \<Rightarrow> nonempty_key k"
      using keys by (simp add: case_prod_beta)
  qed
  have eq: "range_records xs = map (\<lambda>(k, v). \<lparr>data = k, valor = v\<rparr>)
      (filter (\<lambda>(k, v). nonempty_key k) ?seen)"
    by (simp only: range_records_eq f)
  have "deduped_by_date ?ys (range_records xs)"
    by (rule records_of_dict [where Q = nonempty_key, OF dict_distinct dict_lookup_last eq]) simp_all
  then show ?thesis by (rule deduped_by_date_filter)
qed






section \<open>Month keys: decimal rendering and order\<close>

lemma below_ten: "k < 10 \<Longrightarrow> k \<in> {0, 1, 2, 3, 4, 5, 6, 7, 8, 9 :: nat}"
  by auto

lemma digit_char_code: "of_char (digit_char n) = (48 + nat (n mod 10) :: nat)"
proof -
  have "nat (n mod 10) < 10" by simp
  then have "nat (n mod 10) \<in> {0, 1, 2, 3, 4, 5, 6, 7, 8, 9 :: nat}" by (rule below_ten)
  then show ?thesis unfolding digit_char_def by (elim insertE emptyE) simp_all
qed

lemma digit_char_less: "digit_char a < digit_char b \<longleftrightarrow> a mod 10 < b mod 10"
proof -
  have "0 \<le> a mod 10" "0 \<le> b mod 10" by simp_all
  then show ?thesis by (simp add: less_char_def digit_char_code) linarith
qed

lemma digit_char_eq: "digit_char a = digit_char b \<longleftrightarrow> a mod 10 = b mod 10"
proof
  assume "digit_char a = digit_char b"
  then have "(of_char (digit_char a) :: nat) = of_char (digit_char b)" by simp
  then show "a mod 10 = b mod 10" by (simp add: digit_char_code)
next
  assume "a mod 10 = b mod 10"
  then show "digit_char a = digit_char b" by (simp add: digit_char_def)
qed

lemma less_by_last_digit:
  "(a::int) < b \<longleftrightarrow> a div 10 < b div 10 \<or> (a div 10 = b div 10 \<and> a mod 10 < b mod 10)"
proof -
  have a: "a = 10 * (a div 10) + a mod 10" and b: "b = 10 * (b div 10) + b mod 10" by simp_all
  have ra: "0 \<le> a mod 10" "a mod 10 < 10" and rb: "0 \<le> b mod 10" "b mod 10 < 10" by simp_all
  show ?thesis
  proof
    assume "a < b"
    with a b have "10 * (a div 10) + a mod 10 < 10 * (b div 10) + b mod 10" by simp
    with ra rb show "a div 10 < b div 10 \<or> (a div 10 = b div 10 \<and> a mod 10 < b mod 10)" by linarith
  next
    assume "a div 10 < b div 10 \<or> (a div 10 = b div 10 \<and> a mod 10 < b mod 10)"
    with ra rb have "10 * (a div 10) + a mod 10 < 10 * (b div 10) + b mod 10" by linarith
    with a b show "a < b" by simp
  qed
qed

lemma eq_by_last_digit:
  "(a::int) = b \<longleftrightarrow> a div 10 = b div 10 \<and> a mod 10 = b mod 10"
proof
  assume "a = b" then show "a div 10 = b div 10 \<and> a mod 10 = b mod 10" by simp
next
  assume h: "a div 10 = b div 10 \<and> a mod 10 = b mod 10"
  have "a = 10 * (a div 10) + a mod 10" by simp
  also have "\<dots> = 10 * (b div 10) + b mod 10" using h by simp
  also have "\<dots> = b" by simp
  finally show "a = b" .
qed

lemma small_mod: "0 \<le> (a::int) \<Longrightarrow> a \<le> 9 \<Longrightarrow> a mod 10 = a"
  by simp

lemma fmt02_less:
  assumes "0 \<le> a" "a \<le> 99" "0 \<le> b" "b \<le> 99"
  shows "fmt02 a < fmt02 b \<longleftrightarrow> a < b"
proof -
  have a1: "(a div 10) mod 10 = a div 10" using assms by (intro small_mod) presburger+
  have b1: "(b div 10) mod 10 = b div 10" using assms by (intro small_mod) presburger+
  show ?thesis
    unfolding fmt02_def
    by (simp add: digit_char_less digit_char_eq a1 b1) (metis less_by_last_digit)
qed

lemma fmt02_eq:
  assumes "0 \<le> a" "a \<le> 99" "0 \<le> b" "b \<le> 99"
  shows "fmt02 a = fmt02 b \<longleftrightarrow> a = b"
proof -
  have a1: "(a div 10) mod 10 = a div 10" using assms by (intro small_mod) presburger+
  have b1: "(b div 10) mod 10 = b div 10" using assms by (intro small_mod) presburger+
  show ?thesis
    unfolding fmt02_def
    by (simp add: digit_char_eq a1 b1) (metis eq_by_last_digit)
qed


lemma fmt04_digits:
  fixes a :: int
  assumes "0 \<le> a" "a \<le> 9999"
  shows "a div 100 = a div 10 div 10" and "a div 1000 = a div 100 div 10"
    and "(a div 1000) mod 10 = a div 1000"
proof -
  have "a div (10 * 10) = a div 10 div 10" by (rule zdiv_zmult2_eq) simp
  then show "a div 100 = a div 10 div 10" by simp
  have "a div (100 * 10) = a div 100 div 10" by (rule zdiv_zmult2_eq) simp
  then show "a div 1000 = a div 100 div 10" by simp
  have "a div 1000 \<le> 9999 div 1000" using assms(2) by (rule zdiv_mono1) simp
  moreover have "0 \<le> a div 1000" using assms(1) by simp
  ultimately show "(a div 1000) mod 10 = a div 1000" by simp
qed

lemma fmt04_less:
  assumes "0 \<le> a" "a \<le> 9999" "0 \<le> b" "b \<le> 9999"
  shows "fmt04 a < fmt04 b \<longleftrightarrow> a < b"
proof -
  note da = fmt04_digits [OF assms(1,2)] and db = fmt04_digits [OF assms(3,4)]
  have s1: "a < b \<longleftrightarrow> a div 10 < b div 10 \<or> (a div 10 = b div 10 \<and> a mod 10 < b mod 10)"
    by (rule less_by_last_digit)
  have s2: "a div 10 < b div 10 \<longleftrightarrow>
      a div 100 < b div 100 \<or> (a div 100 = b div 100 \<and> a div 10 mod 10 < b div 10 mod 10)"
    using less_by_last_digit [of "a div 10" "b div 10"] by (simp only: da(1) db(1))
  have s3: "a div 100 < b div 100 \<longleftrightarrow>
      a div 1000 < b div 1000 \<or> (a div 1000 = b div 1000 \<and> a div 100 mod 10 < b div 100 mod 10)"
    using less_by_last_digit [of "a div 100" "b div 100"] by (simp only: da(2) db(2))
  have e1: "a div 10 = b div 10 \<longleftrightarrow> a div 100 = b div 100 \<and> a div 10 mod 10 = b div 10 mod 10"
    using eq_by_last_digit [of "a div 10" "b div 10"] by (simp only: da(1) db(1))
  have e2: "a div 100 = b div 100 \<longleftrightarrow> a div 1000 = b div 1000 \<and> a div 100 mod 10 = b div 100 mod 10"
    using eq_by_last_digit [of "a div 100" "b div 100"] by (simp only: da(2) db(2))
  have l: "fmt04 a < fmt04 b \<longleftrightarrow>
      a div 1000 < b div 1000 \<or> (a div 1000 = b div 1000 \<and>
        (a div 100 mod 10 < b div 100 mod 10 \<or> (a div 100 mod 10 = b div 100 mod 10 \<and>
          (a div 10 mod 10 < b div 10 mod 10 \<or> (a div 10 mod 10 = b div 10 mod 10 \<and>
             a mod 10 < b mod 10)))))"
    unfolding fmt04_def by (simp add: digit_char_less digit_char_eq da(3) db(3))
  show ?thesis unfolding l s1 s2 s3 e1 e2 by blast
qed

lemma fmt04_eq:
  assumes "0 \<le> a" "a \<le> 9999" "0 \<le> b" "b \<le> 9999"
  shows "fmt04 a = fmt04 b \<longleftrightarrow> a = b"
proof -
  note da = fmt04_digits [OF assms(1,2)] and db = fmt04_digits [OF assms(3,4)]
  have e0: "a = b \<longleftrightarrow> a div 10 = b div 10 \<and> a mod 10 = b mod 10"
    by (rule eq_by_last_digit)
  have e1: "a div 10 = b div 10 \<longleftrightarrow> a div 100 = b div 100 \<and> a div 10 mod 10 = b div 10 mod 10"
    using eq_by_last_digit [of "a div 10" "b div 10"] by (simp only: da(1) db(1))
  have e2: "a div 100 = b div 100 \<longleftrightarrow> a div 1000 = b div 1000 \<and> a div 100 mod 10 = b div 100 mod 10"
    using eq_by_last_digit [of "a div 100" "b div 100"] by (simp only: da(2) db(2))
  have l: "fmt04 a = fmt04 b \<longleftrightarrow>
      a div 1000 = b div 1000 \<and> a div 100 mod 10 = b div 100 mod 10
      \<and> a div 10 mod 10 = b div 10 mod 10 \<and> a mod 10 = b mod 10"
    unfolding fmt04_def by (simp add: digit_char_eq da(3) db(3))
  show ?thesis unfolding l e0 e1 e2 by blast
qed

text \<open>
  A month is a pair of a year and a month number. \<open>mkey\<close> is the key \<^verbatim>\<open>YYYY-MM\<close> that
  \<^verbatim>\<open>month_key_iso\<close> gives a date of that month, \<open>first_of_month\<close> the text
  \<^verbatim>\<open>01/MM/YYYY\<close> that the merger writes for it, and \<open>month_of\<close> the month of a record
  whose date parses.
\<close>

definition mkey :: "int \<times> int \<Rightarrow> string" where
  "mkey ym = fmt04 (fst ym) @ ''-'' @ fmt02 (snd ym)"

definition first_of_month :: "int \<times> int \<Rightarrow> string" where
  "first_of_month ym = ''01/'' @ fmt02 (snd ym) @ ''/'' @ fmt04 (fst ym)"

definition valid_month :: "int \<times> int \<Rightarrow> bool" where
  "valid_month ym \<longleftrightarrow> 1 \<le> fst ym \<and> fst ym \<le> 9999 \<and> 1 \<le> snd ym \<and> snd ym \<le> 12"

definition month_of :: "item \<Rightarrow> int \<times> int" where
  "month_of it = (case parse_date it of Inr (y, m, d) \<Rightarrow> (y, m) | Inl e \<Rightarrow> (0, 0))"

lemma append_less_equal_length:
  fixes a b :: "'a::linorder list"
  shows "length a = length b \<Longrightarrow> a @ r < b @ s \<longleftrightarrow> a < b \<or> (a = b \<and> r < s)"
  by (induction a b rule: list_induct2) auto

lemma mkey_less:
  assumes "valid_month a" "valid_month b"
  shows "mkey a < mkey b \<longleftrightarrow> a < b"
proof -
  obtain y m y' m' where a: "a = (y, m)" and b: "b = (y', m')" by (cases a, cases b) auto
  from assms have y: "0 \<le> y" "y \<le> 9999" "0 \<le> y'" "y' \<le> 9999"
    and m: "0 \<le> m" "m \<le> 99" "0 \<le> m'" "m' \<le> 99"
    by (auto simp: valid_month_def a b)
  have len: "length (fmt04 y) = length (fmt04 y')" by (simp add: fmt04_def)
  have "mkey a < mkey b \<longleftrightarrow>
      fmt04 y < fmt04 y' \<or> (fmt04 y = fmt04 y' \<and> ''-'' @ fmt02 m < ''-'' @ fmt02 m')"
    unfolding mkey_def a b fst_conv snd_conv by (rule append_less_equal_length [OF len])
  also have "\<dots> \<longleftrightarrow> fmt04 y < fmt04 y' \<or> (fmt04 y = fmt04 y' \<and> fmt02 m < fmt02 m')"
    by simp
  also have "\<dots> \<longleftrightarrow> y < y' \<or> (y = y' \<and> m < m')"
    by (simp only: fmt04_less [OF y] fmt04_eq [OF y] fmt02_less [OF m])
  also have "\<dots> \<longleftrightarrow> a < b" by (auto simp: a b less_prod_def)
  finally show ?thesis .
qed

lemma mkey_eq:
  assumes "valid_month a" "valid_month b"
  shows "mkey a = mkey b \<longleftrightarrow> a = b"
proof -
  have "\<not> mkey a < mkey b \<and> \<not> mkey b < mkey a \<longleftrightarrow> \<not> a < b \<and> \<not> b < a"
    by (simp only: mkey_less [OF assms] mkey_less [OF assms(2,1)])
  then show ?thesis by (metis less_irrefl linorder_neqE)
qed

lemma mkey_length: "length (mkey ym) = 7"
  by (simp add: mkey_def fmt04_def fmt02_def)

lemma month_key_iso_mkey: "parse_date it = Inr d \<Longrightarrow> month_key_iso d = mkey (month_of it)"
  by (cases d) (simp add: month_key_iso_def mkey_def month_of_def)

lemma strptime_valid:
  assumes "strptime s = Some (y, m, d)"
  shows "1 \<le> y \<and> y \<le> 9999 \<and> 1 \<le> m \<and> m \<le> 12 \<and> 1 \<le> d"
proof -
  from assms obtain y' m' d' where "mk_date y' m' d' = Inr (y, m, d)"
    by (auto simp: strptime_def split: option.splits sum.splits prod.splits)
  then show ?thesis by (simp add: mk_date_def split: if_splits)
qed

lemma month_of_valid: "parse_date it = Inr d \<Longrightarrow> valid_month (month_of it)"
proof -
  assume p: "parse_date it = Inr d"
  obtain y m dd where d: "d = (y, m, dd)" by (cases d)
  from p d obtain s where "strptime s = Some (y, m, dd)"
    by (auto simp: parse_date_def split: option.splits)
  from strptime_valid [OF this] show ?thesis using p d by (simp add: valid_month_def month_of_def)
qed

lemma digit_char_is_digit: "is_digit (digit_char n)"
proof -
  have "nat (n mod 10) < 10" by simp
  then have "nat (n mod 10) \<in> {0, 1, 2, 3, 4, 5, 6, 7, 8, 9 :: nat}" by (rule below_ten)
  then show ?thesis unfolding digit_char_def is_digit_def by (elim insertE emptyE) simp_all
qed

lemma digit_val_digit_char: "digit_val (digit_char n) = n mod 10"
  by (simp add: digit_val_def digit_char_code)

lemma digit_char_not_dash: "digit_char n \<noteq> CHR ''-''"
proof
  assume "digit_char n = CHR ''-''"
  then have "(of_char (digit_char n) :: nat) = of_char (CHR ''-'')" by simp
  then show False by (simp add: digit_char_code)
qed

lemma split_on_mkey: "split_on (CHR ''-'') (mkey ym) = [fmt04 (fst ym), fmt02 (snd ym)]"
  by (simp add: mkey_def fmt04_def fmt02_def digit_char_not_dash)

lemma int_of_digits_fmt04:
  assumes "0 \<le> y" "y \<le> 9999"
  shows "int_of_digits (fmt04 y) = y"
proof -
  note d = fmt04_digits [OF assms]
  define q1 q2 q3 r0 r1 r2 where "q1 = y div 10" and "q2 = y div 100" and "q3 = y div 1000"
    and "r0 = y mod 10" and "r1 = y div 10 mod 10" and "r2 = y div 100 mod 10"
  have a: "y = 10 * q1 + r0" unfolding q1_def r0_def by simp
  have b: "q1 = 10 * q2 + r1" unfolding q1_def q2_def r1_def d(1) by simp
  have c: "q2 = 10 * q3 + r2" unfolding q2_def q3_def r2_def d(2) by simp
  have "int_of_digits (fmt04 y)
      = 10 * (10 * (10 * (y div 1000 mod 10) + y div 100 mod 10) + y div 10 mod 10) + y mod 10"
    by (simp add: int_of_digits_def fmt04_def digit_val_digit_char)
  also have "\<dots> = 10 * (10 * (10 * q3 + r2) + r1) + r0"
    unfolding d(3) q3_def r2_def r1_def r0_def ..
  also have "\<dots> = y" by (simp only: c [symmetric] b [symmetric] a [symmetric])
  finally show ?thesis .
qed

lemma year_field_fmt04:
  assumes "0 \<le> y" "y \<le> 9999"
  shows "year_field (fmt04 y) = Some y"
proof -
  have "length (fmt04 y) = 4" "list_all is_digit (fmt04 y)"
    by (simp_all add: fmt04_def digit_char_is_digit)
  then show ?thesis by (simp add: year_field_def int_of_digits_fmt04 [OF assms])
qed

lemma month_field_fmt02:
  assumes "1 \<le> m" "m \<le> 12"
  shows "month_field (fmt02 m @ CHR ''/'' # rest) = Some (m, CHR ''/'' # rest)"
proof -
  from assms have "m \<in> {1, 2, 3, 4, 5, 6, 7, 8, 9, 10, 11, 12}" by (simp; arith)
  then show ?thesis
    by (elim insertE emptyE)
       (simp_all add: fmt02_def digit_char_def int_of_digits_def digit_val_def is_digit_def)
qed

lemma strptime_first_of_month:
  assumes "valid_month ym"
  shows "strptime (first_of_month ym) = Some (fst ym, snd ym, 1)"
proof -
  from assms have y: "0 \<le> fst ym" "fst ym \<le> 9999" "1 \<le> fst ym"
    and m: "1 \<le> snd ym" "snd ym \<le> 12"
    by (simp_all add: valid_month_def)
  have day: "day_field (first_of_month ym) = Some (1, CHR ''/'' # fmt02 (snd ym) @ CHR ''/'' # fmt04 (fst ym))"
    by (simp add: first_of_month_def int_of_digits_def digit_val_def)
  have mon: "month_field (fmt02 (snd ym) @ CHR ''/'' # fmt04 (fst ym))
      = Some (snd ym, CHR ''/'' # fmt04 (fst ym))"
    by (rule month_field_fmt02 [OF m])
  have dt: "mk_date (fst ym) (snd ym) 1 = Inr (fst ym, snd ym, 1)"
    using y m by (simp add: mk_date_def days_in_month_def)
  show ?thesis
    unfolding strptime_def day
    by (simp add: expect_slash_def mon year_field_fmt04 [OF y(1,2)] dt)
qed


section \<open>Properties of the merger\<close>

text \<open>
  The merger is described by months. \<open>dated items\<close> says that every record of the list has
  a date that \<^verbatim>\<open>parse_date\<close> accepts. \<open>month_record K ym\<close> is the record that stands for the
  month \<open>ym\<close> of the list \<open>K\<close>: its date is the first day of the month and its value is the one
  of the last record of \<open>K\<close> in that month. \<open>by_month K\<close> is \<open>K\<close> with one such record for each
  month that occurs in it, in ascending order of the months.
\<close>

definition month_record :: "item list \<Rightarrow> int \<times> int \<Rightarrow> item" where
  "month_record K ym =
     \<lparr> data = Some (first_of_month ym), valor = valor (last [it \<leftarrow> K. month_of it = ym]) \<rparr>"

definition by_month :: "item list \<Rightarrow> item list" where
  "by_month K = map (month_record K) (sort (remdups (map month_of K)))"

definition dated :: "item list \<Rightarrow> bool" where
  "dated items \<longleftrightarrow> (\<forall>it \<in> set items. \<exists>d. parse_date it = Inr d)"

lemma dated_Cons: "dated (it # items) \<longleftrightarrow> (\<exists>d. parse_date it = Inr d) \<and> dated items"
  by (simp add: dated_def)

lemma dated_append: "dated (xs @ ys) \<longleftrightarrow> dated xs \<and> dated ys"
  by (auto simp: dated_def)

lemma dated_filter: "dated xs \<Longrightarrow> dated (filter P xs)"
  by (simp add: dated_def)

lemma dated_valid: "dated xs \<Longrightarrow> it \<in> set xs \<Longrightarrow> valid_month (month_of it)"
  unfolding dated_def using month_of_valid by blast

lemma merge_loop_fold:
  "dated items \<Longrightarrow>
   merge_loop keep items m0
     = Inr (fold (\<lambda>it m. if keep (mkey (month_of it))
                           then AList.update (mkey (month_of it)) (valor it) m else m) items m0)"
proof (induction items arbitrary: m0)
  case Nil
  show ?case by simp
next
  case (Cons it items)
  from Cons.prems obtain d where d: "parse_date it = Inr d" and rest: "dated items"
    by (auto simp: dated_Cons)
  have k: "month_key_iso d = mkey (month_of it)" by (rule month_key_iso_mkey [OF d])
  show ?case by (simp add: d k Cons.IH [OF rest])
qed

lemma merge_loop_raises:
  "\<not> dated items \<Longrightarrow> \<exists>e. merge_loop keep items m0 = Inl e"
proof (induction items arbitrary: m0)
  case Nil
  then show ?case by (simp add: dated_def)
next
  case (Cons it items)
  show ?case
  proof (cases "parse_date it")
    case (Inl e)
    then show ?thesis by simp
  next
    case (Inr d)
    with Cons.prems have "\<not> dated items" unfolding dated_Cons by blast
    from Cons.IH [OF this] show ?thesis by (simp add: Inr Let_def)
  qed
qed

lemma merge_loop_dict:
  assumes "dated items"
  shows "merge_loop keep items m0
     = Inr (fold (\<lambda>(d, v) m. AList.update d v m)
             (map (\<lambda>it. (mkey (month_of it), valor it)) [it \<leftarrow> items. keep (mkey (month_of it))]) m0)"
  unfolding merge_loop_fold [OF assms] by (simp only: fold_update_cond)

lemma merge_out_mkeys:
  "\<forall>ym \<in> set yms. \<exists>v. map_of mm (mkey ym) = Some v \<Longrightarrow>
   merge_out mm (map mkey yms)
     = Inr (map (\<lambda>ym. \<lparr> data = Some (first_of_month ym), valor = the (map_of mm (mkey ym)) \<rparr>) yms)"
proof (induction yms)
  case Nil
  show ?case by simp
next
  case (Cons ym yms)
  from Cons.prems obtain v where v: "map_of mm (mkey ym) = Some v" by auto
  from Cons.prems have "\<forall>ym \<in> set yms. \<exists>v. map_of mm (mkey ym) = Some v" by simp
  note ih = Cons.IH [OF this]
  show ?case by (simp add: split_on_mkey v ih first_of_month_def)
qed

lemma sorted_keys:
  assumes valid: "\<forall>ym \<in> set yms. valid_month ym" and d: "distinct ks"
    and s: "set ks = mkey ` set yms"
  shows "sort ks = map mkey (sort (remdups yms))"
proof -
  let ?ys = "sort (remdups yms)"
  have sy: "sorted_wrt (<) ?ys" by (simp add: strict_sorted_iff)
  have "sorted_wrt (\<lambda>a b. mkey a < mkey b) ?ys"
  proof (rule sorted_wrt_mono_rel [OF _ sy])
    fix a b assume "a \<in> set ?ys" "b \<in> set ?ys" "a < b"
    then show "mkey a < mkey b" using valid by (simp add: mkey_less)
  qed
  then have "sorted_wrt (<) (map mkey ?ys)" by (simp add: sorted_wrt_map)
  then have "sorted (map mkey ?ys)" "distinct (map mkey ?ys)" by (simp_all add: strict_sorted_iff)
  moreover have "sorted (sort ks)" "distinct (sort ks)" using d by simp_all
  moreover have "set (sort ks) = set (map mkey ?ys)" using s by simp
  ultimately show ?thesis by (metis sorted_distinct_set_unique)
qed

lemma filter_mkey:
  assumes "dated K" "valid_month ym"
  shows "[it \<leftarrow> K. mkey (month_of it) = mkey ym] = [it \<leftarrow> K. month_of it = ym]"
proof (rule filter_cong [OF refl])
  fix it assume "it \<in> set K"
  then have "valid_month (month_of it)" by (rule dated_valid [OF assms(1)])
  then show "(mkey (month_of it) = mkey ym) = (month_of it = ym)"
    using assms(2) by (rule mkey_eq)
qed

lemma merge_poup_series_at_eq:
  assumes old: "dated items_old" and new: "dated items_new"
  shows "merge_poup_series_at c items_old items_new
     = Inr (by_month ([it \<leftarrow> items_old. mkey (month_of it) < c]
                      @ [it \<leftarrow> items_new. c \<le> mkey (month_of it)]))"
proof -
  define K where "K = [it \<leftarrow> items_old. mkey (month_of it) < c]
                      @ [it \<leftarrow> items_new. c \<le> mkey (month_of it)]"
  define kv where "kv = (\<lambda>it. (mkey (month_of it), valor it))"
  define upd where "upd = (\<lambda>(d :: string, v :: string option) m. AList.update d v m)"
  define m2 where "m2 = fold upd (map kv K) []"
  define yms where "yms = sort (remdups (map month_of K))"
  have dK: "dated K" unfolding K_def using old new by (simp add: dated_append dated_filter)
  have l1: "merge_loop (\<lambda>mk. mk < c) items_old []
      = Inr (fold upd (map kv [it \<leftarrow> items_old. mkey (month_of it) < c]) [])"
    unfolding upd_def kv_def by (rule merge_loop_dict [OF old])
  have l2: "merge_loop (\<lambda>mk. c \<le> mk) items_new m
      = Inr (fold upd (map kv [it \<leftarrow> items_new. c \<le> mkey (month_of it)]) m)" for m
    unfolding upd_def kv_def by (rule merge_loop_dict [OF new])
  have eq: "merge_poup_series_at c items_old items_new = merge_out m2 (sort (map fst m2))"
    unfolding merge_poup_series_at_def l1 l2 m2_def K_def by simp
  have keys: "set (map fst m2) = mkey ` set (map month_of K)"
    unfolding m2_def upd_def kv_def by (simp add: dict_keys_image image_image)
  have dist: "distinct (map fst m2)" unfolding m2_def upd_def by (rule dict_distinct)
  have valid: "\<forall>ym \<in> set (map month_of K). valid_month ym"
    using dated_valid [OF dK] by auto
  have srt: "sort (map fst m2) = map mkey yms"
    unfolding yms_def by (rule sorted_keys [OF valid dist keys])
  have look: "map_of m2 (mkey ym) = Some (valor (last [it \<leftarrow> K. month_of it = ym]))"
    if "ym \<in> set yms" for ym
  proof -
    from that have mem: "ym \<in> month_of ` set K" by (simp add: yms_def)
    then have v: "valid_month ym" using dated_valid [OF dK] by blast
    from mem have ex: "\<exists>x \<in> set K. mkey (month_of x) = mkey ym" by auto
    have "map_of m2 (mkey ym) = Some (valor (last [it \<leftarrow> K. mkey (month_of it) = mkey ym]))"
      unfolding m2_def upd_def kv_def dict_lookup_last using ex by simp
    then show ?thesis by (simp only: filter_mkey [OF dK v])
  qed
  have "merge_out m2 (map mkey yms)
      = Inr (map (\<lambda>ym. \<lparr> data = Some (first_of_month ym), valor = the (map_of m2 (mkey ym)) \<rparr>) yms)"
    by (rule merge_out_mkeys) (simp add: look)
  also have "map (\<lambda>ym. \<lparr> data = Some (first_of_month ym), valor = the (map_of m2 (mkey ym)) \<rparr>) yms
      = map (month_record K) yms"
    by (rule map_cong [OF refl]) (simp add: look month_record_def)
  finally show ?thesis unfolding eq srt by (simp add: by_month_def yms_def K_def)
qed

lemma merge_poup_series_at_raises:
  assumes "\<not> (dated items_old \<and> dated items_new)"
  shows "\<exists>e. merge_poup_series_at c items_old items_new = Inl e"
proof (cases "dated items_old")
  case False
  from merge_loop_raises [OF this] obtain e
    where "merge_loop (\<lambda>mk. mk < c) items_old [] = Inl e" by blast
  then show ?thesis by (simp add: merge_poup_series_at_def)
next
  case True
  with assms have n: "\<not> dated items_new" by simp
  obtain m1 where m1: "merge_loop (\<lambda>mk. mk < c) items_old [] = Inr m1"
    by (simp add: merge_loop_fold [OF True])
  from merge_loop_raises [OF n] obtain e
    where "merge_loop (\<lambda>mk. c \<le> mk) items_new m1 = Inl e" by blast
  then show ?thesis by (simp add: merge_poup_series_at_def m1)
qed

lemma filter_split_by:
  "[it \<leftarrow> [it \<leftarrow> xs. P (g it)] @ [it \<leftarrow> ys. \<not> P (g it)]. g it = y]
     = (if P y then [it \<leftarrow> xs. g it = y] else [it \<leftarrow> ys. g it = y])"
proof -
  have a: "[x \<leftarrow> zs. Q (g x) \<and> g x = y] = (if Q y then [x \<leftarrow> zs. g x = y] else [])"
    for zs :: "'a list" and Q
    by (induction zs) auto
  show ?thesis by (simp add: a [of P] a [of "\<lambda>z. \<not> P z"])
qed

lemma month_mem_filter: "ym \<in> month_of ` set K \<longleftrightarrow> [it \<leftarrow> K. month_of it = ym] \<noteq> []"
  by (auto simp: filter_empty_conv)

lemma sort_remdups_cong: 
  fixes xs ys :: "'a::linorder list"
  shows "set xs = set ys \<Longrightarrow> sort (remdups xs) = sort (remdups ys)"
  by (rule sorted_distinct_set_unique) simp_all

lemma by_month_cong:
  assumes "\<And>ym. [it \<leftarrow> K. month_of it = ym] = [it \<leftarrow> S. month_of it = ym]"
  shows "by_month K = by_month S"
proof -
  have "month_of ` set K = month_of ` set S"
    by (rule set_eqI) (simp only: month_mem_filter assms)
  then have "sort (remdups (map month_of K)) = sort (remdups (map month_of S))"
    by (intro sort_remdups_cong) simp
  moreover have "month_record K = month_record S"
    by (rule ext) (simp add: month_record_def assms)
  ultimately show ?thesis by (simp add: by_month_def)
qed

lemma month_of_month_record:
  assumes "valid_month ym"
  shows "month_of (month_record K ym) = ym"
  by (simp add: month_of_def month_record_def parse_date_def strptime_first_of_month [OF assms])

lemma by_month_months:
  assumes "dated K"
  shows "map month_of (by_month K) = sort (remdups (map month_of K))"
proof -
  have "map (\<lambda>ym. month_of (month_record K ym)) (sort (remdups (map month_of K)))
      = map (\<lambda>ym. ym) (sort (remdups (map month_of K)))"
  proof (rule map_cong [OF refl])
    fix ym assume "ym \<in> set (sort (remdups (map month_of K)))"
    then have "ym \<in> month_of ` set K" by simp
    then have "valid_month ym" using dated_valid [OF assms] by blast
    then show "month_of (month_record K ym) = ym" by (rule month_of_month_record)
  qed
  then show ?thesis by (simp add: by_month_def comp_def)
qed

lemma by_month_strict:
  assumes "dated K"
  shows "sorted_wrt (<) (map month_of (by_month K))"
  unfolding by_month_months [OF assms] by (simp add: strict_sorted_iff)

lemma filter_eq_distinct:
  "distinct xs \<Longrightarrow> [x \<leftarrow> xs. x = a] = (if a \<in> set xs then [a] else [])"
  by (induction xs) auto

lemma by_month_filter:
  assumes "dated K"
  shows "[r \<leftarrow> by_month K. month_of r = ym]
     = (if ym \<in> month_of ` set K then [month_record K ym] else [])"
proof -
  let ?yms = "sort (remdups (map month_of K))"
  have "[r \<leftarrow> by_month K. month_of r = ym]
      = map (month_record K) [y \<leftarrow> ?yms. month_of (month_record K y) = ym]"
    by (simp add: by_month_def filter_map comp_def)
  also have "[y \<leftarrow> ?yms. month_of (month_record K y) = ym] = [y \<leftarrow> ?yms. y = ym]"
  proof (rule filter_cong [OF refl])
    fix y assume "y \<in> set ?yms"
    then have "y \<in> month_of ` set K" by simp
    then have "valid_month y" using dated_valid [OF assms] by blast
    then show "(month_of (month_record K y) = ym) = (y = ym)"
      by (simp add: month_of_month_record)
  qed
  also have "\<dots> = (if ym \<in> set ?yms then [ym] else [])"
    by (rule filter_eq_distinct) simp
  finally show ?thesis by simp
qed

lemma by_month_first_day:
  assumes "dated K" "r \<in> set (by_month K)"
  shows "data r = Some (first_of_month (month_of r))"
proof -
  from assms(2) obtain ym where ym: "ym \<in> month_of ` set K" and r: "r = month_record K ym"
    by (auto simp: by_month_def)
  from ym have "valid_month ym" using dated_valid [OF assms(1)] by blast
  then have "month_of r = ym" unfolding r by (rule month_of_month_record)
  then show ?thesis by (simp add: r month_record_def)
qed

lemma cutoff_month_mkey: "''2012-06'' = mkey (2012, 6)"
  by (simp add: mkey_def fmt04_def fmt02_def digit_char_def)

lemma kept_by_month:
  assumes "dated items_old" "dated items_new" "valid_month cm"
  shows "[it \<leftarrow> items_old. mkey (month_of it) < mkey cm] @ [it \<leftarrow> items_new. mkey cm \<le> mkey (month_of it)]
     = [it \<leftarrow> items_old. month_of it < cm] @ [it \<leftarrow> items_new. \<not> month_of it < cm]"
proof -
  have a: "[it \<leftarrow> items_old. mkey (month_of it) < mkey cm] = [it \<leftarrow> items_old. month_of it < cm]"
  proof (rule filter_cong [OF refl])
    fix it assume "it \<in> set items_old"
    then have "valid_month (month_of it)" by (rule dated_valid [OF assms(1)])
    then show "(mkey (month_of it) < mkey cm) = (month_of it < cm)"
      using assms(3) by (rule mkey_less)
  qed
  have b: "[it \<leftarrow> items_new. mkey cm \<le> mkey (month_of it)] = [it \<leftarrow> items_new. \<not> month_of it < cm]"
  proof (rule filter_cong [OF refl])
    fix it assume "it \<in> set items_new"
    then have "valid_month (month_of it)" by (rule dated_valid [OF assms(2)])
    then have "(mkey (month_of it) < mkey cm) = (month_of it < cm)"
      using assms(3) by (rule mkey_less)
    then show "(mkey cm \<le> mkey (month_of it)) = (\<not> month_of it < cm)"
      by (simp add: not_less [symmetric])
  qed
  show ?thesis by (simp only: a b)
qed


text \<open>
  Claim C3. When every record of both lists has a date that parses, \<^verbatim>\<open>merge_poup_series\<close>
  returns a list whose months are strictly ascending (so each month has one record at most),
  each record is dated the first day of its month, and the records of a month \<open>ym\<close> in the
  result are: for a month before June 2012, the one record that carries the value of the last
  record of that month in the old list, when the old list has the month, and none otherwise;
  for a month from June 2012 on, the same with the new list. When some record has no date or
  a date that does not parse, the function raises. In the example, the old list has two records
  in May 2012 and one in July 2012, the new list one in May and one in June 2012: the result
  has May with the value of the later old record, and June with the value of the new record.
\<close>

theorem merge_poup_series_by_month:
  "(dated items_old \<and> dated items_new \<longrightarrow>
      (\<exists>out. merge_poup_series items_old items_new = Inr out
         \<and> sorted_wrt (<) (map month_of out)
         \<and> (\<forall>r \<in> set out. data r = Some (first_of_month (month_of r)))
         \<and> (\<forall>ym. [r \<leftarrow> out. month_of r = ym]
               = (if ym < (2012, 6)
                  then (if ym \<in> month_of ` set items_old then [month_record items_old ym] else [])
                  else (if ym \<in> month_of ` set items_new then [month_record items_new ym] else [])))))
   \<and> (\<not> (dated items_old \<and> dated items_new) \<longrightarrow>
        (\<exists>e. merge_poup_series items_old items_new = Inl e))"
proof (intro conjI impI)
  assume "\<not> (dated items_old \<and> dated items_new)"
  then show "\<exists>e. merge_poup_series items_old items_new = Inl e"
    unfolding merge_poup_series_def by (rule merge_poup_series_at_raises)
next
  assume d: "dated items_old \<and> dated items_new"
  then have old: "dated items_old" and new: "dated items_new" by simp_all
  define K where "K = [it \<leftarrow> items_old. month_of it < (2012, 6)]
      @ [it \<leftarrow> items_new. \<not> month_of it < (2012, 6)]"
  have v: "valid_month (2012, 6)" by (simp add: valid_month_def)
  have dK: "dated K" unfolding K_def using old new by (simp add: dated_append dated_filter)
  have eq: "merge_poup_series items_old items_new = Inr (by_month K)"
    unfolding merge_poup_series_def cutoff_month_mkey merge_poup_series_at_eq [OF old new]
      kept_by_month [OF old new v] K_def ..
  have f: "[it \<leftarrow> K. month_of it = ym]
      = (if ym < (2012, 6) then [it \<leftarrow> items_old. month_of it = ym]
         else [it \<leftarrow> items_new. month_of it = ym])" for ym
    unfolding K_def by (rule filter_split_by)
  have mem: "ym \<in> month_of ` set K \<longleftrightarrow>
      (if ym < (2012, 6) then ym \<in> month_of ` set items_old else ym \<in> month_of ` set items_new)" for ym
    by (simp add: month_mem_filter f)
  have rec: "month_record K ym
      = (if ym < (2012, 6) then month_record items_old ym else month_record items_new ym)" for ym
    by (simp add: month_record_def f)
  have "\<forall>ym. [r \<leftarrow> by_month K. month_of r = ym]
      = (if ym < (2012, 6)
         then (if ym \<in> month_of ` set items_old then [month_record items_old ym] else [])
         else (if ym \<in> month_of ` set items_new then [month_record items_new ym] else []))"
    by (simp add: by_month_filter [OF dK] mem rec)
  moreover have "sorted_wrt (<) (map month_of (by_month K))" by (rule by_month_strict [OF dK])
  moreover have "\<forall>r \<in> set (by_month K). data r = Some (first_of_month (month_of r))"
    using by_month_first_day [OF dK] by blast
  ultimately show "\<exists>out. merge_poup_series items_old items_new = Inr out
         \<and> sorted_wrt (<) (map month_of out)
         \<and> (\<forall>r \<in> set out. data r = Some (first_of_month (month_of r)))
         \<and> (\<forall>ym. [r \<leftarrow> out. month_of r = ym]
               = (if ym < (2012, 6)
                  then (if ym \<in> month_of ` set items_old then [month_record items_old ym] else [])
                  else (if ym \<in> month_of ` set items_new then [month_record items_new ym] else [])))"
    unfolding eq by blast
qed

theorem merge_poup_series_by_month_witness:
  "dated [\<lparr>data = Some ''10/05/2012'', valor = Some ''0,50''\<rparr>,
          \<lparr>data = Some ''20/05/2012'', valor = Some ''0,55''\<rparr>,
          \<lparr>data = Some ''01/07/2012'', valor = Some ''0,99''\<rparr>]
   \<and> dated [\<lparr>data = Some ''15/05/2012'', valor = Some ''0,11''\<rparr>,
            \<lparr>data = Some ''01/06/2012'', valor = Some ''0,40''\<rparr>]
   \<and> merge_poup_series
        [\<lparr>data = Some ''10/05/2012'', valor = Some ''0,50''\<rparr>,
         \<lparr>data = Some ''20/05/2012'', valor = Some ''0,55''\<rparr>,
         \<lparr>data = Some ''01/07/2012'', valor = Some ''0,99''\<rparr>]
        [\<lparr>data = Some ''15/05/2012'', valor = Some ''0,11''\<rparr>,
         \<lparr>data = Some ''01/06/2012'', valor = Some ''0,40''\<rparr>]
     = Inr [\<lparr>data = Some ''01/05/2012'', valor = Some ''0,55''\<rparr>,
            \<lparr>data = Some ''01/06/2012'', valor = Some ''0,40''\<rparr>]
   \<and> sorted_wrt (<) (map month_of [\<lparr>data = Some ''01/05/2012'', valor = Some ''0,55''\<rparr>,
            \<lparr>data = Some ''01/06/2012'', valor = Some ''0,40''\<rparr>])
   \<and> \<not> dated [\<lparr>data = Some ''31/02/2012'', valor = Some ''0,50''\<rparr>]
   \<and> (\<exists>e. merge_poup_series [\<lparr>data = Some ''31/02/2012'', valor = Some ''0,50''\<rparr>] [] = Inl e)"
proof -
  let ?old = "[\<lparr>data = Some ''10/05/2012'', valor = Some ''0,50''\<rparr>,
          \<lparr>data = Some ''20/05/2012'', valor = Some ''0,55''\<rparr>,
          \<lparr>data = Some ''01/07/2012'', valor = Some ''0,99''\<rparr>]"
  let ?new = "[\<lparr>data = Some ''15/05/2012'', valor = Some ''0,11''\<rparr>,
            \<lparr>data = Some ''01/06/2012'', valor = Some ''0,40''\<rparr>]"
  let ?out = "[\<lparr>data = Some ''01/05/2012'', valor = Some ''0,55''\<rparr>,
            \<lparr>data = Some ''01/06/2012'', valor = Some ''0,40''\<rparr>]"
  let ?bad = "[\<lparr>data = Some ''31/02/2012'', valor = Some ''0,50''\<rparr>]"
  have p1: "parse_date \<lparr>data = Some ''10/05/2012'', valor = Some ''0,50''\<rparr> = Inr (2012, 5, 10)"
    by code_simp
  have p2: "parse_date \<lparr>data = Some ''20/05/2012'', valor = Some ''0,55''\<rparr> = Inr (2012, 5, 20)"
    by code_simp
  have p3: "parse_date \<lparr>data = Some ''01/07/2012'', valor = Some ''0,99''\<rparr> = Inr (2012, 7, 1)"
    by code_simp
  have p4: "parse_date \<lparr>data = Some ''15/05/2012'', valor = Some ''0,11''\<rparr> = Inr (2012, 5, 15)"
    by code_simp
  have p5: "parse_date \<lparr>data = Some ''01/06/2012'', valor = Some ''0,40''\<rparr> = Inr (2012, 6, 1)"
    by code_simp
  have p6: "parse_date \<lparr>data = Some ''31/02/2012'', valor = Some ''0,50''\<rparr> = Inl ValueError"
    by code_simp
  have d1: "dated ?old" unfolding dated_def by (simp only: list.set ball_simps p1 p2 p3) blast
  have d2: "dated ?new" unfolding dated_def by (simp only: list.set ball_simps p4 p5) blast
  have d3: "\<not> dated ?bad" unfolding dated_def by (simp only: list.set ball_simps p6) simp
  have m: "merge_poup_series ?old ?new = Inr ?out" by code_simp
  from merge_poup_series_by_month [of ?old ?new, THEN conjunct1] d1 d2
  obtain out where o: "merge_poup_series ?old ?new = Inr out"
    and s: "sorted_wrt (<) (map month_of out)" by blast
  from o m have "out = ?out" by simp
  with s have s': "sorted_wrt (<) (map month_of ?out)" by simp
  from merge_poup_series_by_month [of ?bad "[]", THEN conjunct2] d3
  have r: "\<exists>e. merge_poup_series ?bad [] = Inl e" by blast
  from d1 d2 m s' d3 r show ?thesis by blast
qed


text \<open>
  Claim C5. When every record of \<open>S\<close> has a date that parses, merging \<open>S\<close> with itself gives
  \<open>by_month S\<close>, that is \<open>S\<close> with one record for each month (the last record of the month
  supplies the value), dated the first day of the month, in ascending order; this holds for
  the cutover of the program, which is the constant \<^verbatim>\<open>"2012-06"\<close>, and for every other string
  in its place. When some record has no date or a date that does not parse, the merge raises.
\<close>

theorem merge_identity:
  "(dated S \<longrightarrow> merge_poup_series S S = Inr (by_month S)
               \<and> (\<forall>c. merge_poup_series_at c S S = Inr (by_month S)))
   \<and> (\<not> dated S \<longrightarrow> (\<forall>c. \<exists>e. merge_poup_series_at c S S = Inl e))"
proof (intro conjI impI allI)
  fix c
  assume "\<not> dated S"
  then have "\<not> (dated S \<and> dated S)" by simp
  then show "\<exists>e. merge_poup_series_at c S S = Inl e" by (rule merge_poup_series_at_raises)
next
  assume d: "dated S"
  have g: "merge_poup_series_at c S S = Inr (by_month S)" for c
  proof -
    have k: "[it \<leftarrow> S. c \<le> mkey (month_of it)] = [it \<leftarrow> S. \<not> mkey (month_of it) < c]"
      by (rule filter_cong [OF refl]) (simp add: not_less)
    have "by_month ([it \<leftarrow> S. mkey (month_of it) < c] @ [it \<leftarrow> S. \<not> mkey (month_of it) < c])
        = by_month S"
    proof (rule by_month_cong)
      fix ym
      show "[it \<leftarrow> [it \<leftarrow> S. mkey (month_of it) < c] @ [it \<leftarrow> S. \<not> mkey (month_of it) < c]. month_of it = ym]
          = [it \<leftarrow> S. month_of it = ym]"
        using filter_split_by [where P = "\<lambda>ym. mkey ym < c" and g = month_of and xs = S and ys = S and y = ym]
        by simp
    qed
    then show ?thesis unfolding merge_poup_series_at_eq [OF d d] k by simp
  qed
  show "merge_poup_series S S = Inr (by_month S)" unfolding merge_poup_series_def by (rule g)
  fix c show "merge_poup_series_at c S S = Inr (by_month S)" by (rule g)
qed

theorem merge_identity_witness:
  "dated [\<lparr>data = Some ''10/05/2012'', valor = Some ''0,50''\<rparr>,
          \<lparr>data = Some ''01/06/2012'', valor = Some ''0,40''\<rparr>,
          \<lparr>data = Some ''20/05/2012'', valor = Some ''0,55''\<rparr>]
   \<and> by_month [\<lparr>data = Some ''10/05/2012'', valor = Some ''0,50''\<rparr>,
          \<lparr>data = Some ''01/06/2012'', valor = Some ''0,40''\<rparr>,
          \<lparr>data = Some ''20/05/2012'', valor = Some ''0,55''\<rparr>]
     = [\<lparr>data = Some ''01/05/2012'', valor = Some ''0,55''\<rparr>,
        \<lparr>data = Some ''01/06/2012'', valor = Some ''0,40''\<rparr>]
   \<and> merge_poup_series
        [\<lparr>data = Some ''10/05/2012'', valor = Some ''0,50''\<rparr>,
          \<lparr>data = Some ''01/06/2012'', valor = Some ''0,40''\<rparr>,
          \<lparr>data = Some ''20/05/2012'', valor = Some ''0,55''\<rparr>]
        [\<lparr>data = Some ''10/05/2012'', valor = Some ''0,50''\<rparr>,
          \<lparr>data = Some ''01/06/2012'', valor = Some ''0,40''\<rparr>,
          \<lparr>data = Some ''20/05/2012'', valor = Some ''0,55''\<rparr>]
     = Inr [\<lparr>data = Some ''01/05/2012'', valor = Some ''0,55''\<rparr>,
        \<lparr>data = Some ''01/06/2012'', valor = Some ''0,40''\<rparr>]
   \<and> merge_poup_series_at ''2012-05''
        [\<lparr>data = Some ''10/05/2012'', valor = Some ''0,50''\<rparr>,
          \<lparr>data = Some ''01/06/2012'', valor = Some ''0,40''\<rparr>,
          \<lparr>data = Some ''20/05/2012'', valor = Some ''0,55''\<rparr>]
        [\<lparr>data = Some ''10/05/2012'', valor = Some ''0,50''\<rparr>,
          \<lparr>data = Some ''01/06/2012'', valor = Some ''0,40''\<rparr>,
          \<lparr>data = Some ''20/05/2012'', valor = Some ''0,55''\<rparr>]
     = Inr [\<lparr>data = Some ''01/05/2012'', valor = Some ''0,55''\<rparr>,
        \<lparr>data = Some ''01/06/2012'', valor = Some ''0,40''\<rparr>]
   \<and> \<not> dated [\<lparr>data = None, valor = Some ''0,50''\<rparr>]
   \<and> (\<exists>e. merge_poup_series_at ''2012-06'' [\<lparr>data = None, valor = Some ''0,50''\<rparr>]
          [\<lparr>data = None, valor = Some ''0,50''\<rparr>] = Inl e)"
proof -
  let ?S = "[\<lparr>data = Some ''10/05/2012'', valor = Some ''0,50''\<rparr>,
          \<lparr>data = Some ''01/06/2012'', valor = Some ''0,40''\<rparr>,
          \<lparr>data = Some ''20/05/2012'', valor = Some ''0,55''\<rparr>]"
  let ?out = "[\<lparr>data = Some ''01/05/2012'', valor = Some ''0,55''\<rparr>,
        \<lparr>data = Some ''01/06/2012'', valor = Some ''0,40''\<rparr>]"
  let ?bad = "[\<lparr>data = None, valor = Some ''0,50''\<rparr>]"
  have p1: "parse_date \<lparr>data = Some ''10/05/2012'', valor = Some ''0,50''\<rparr> = Inr (2012, 5, 10)"
    by code_simp
  have p2: "parse_date \<lparr>data = Some ''01/06/2012'', valor = Some ''0,40''\<rparr> = Inr (2012, 6, 1)"
    by code_simp
  have p3: "parse_date \<lparr>data = Some ''20/05/2012'', valor = Some ''0,55''\<rparr> = Inr (2012, 5, 20)"
    by code_simp
  have p4: "parse_date \<lparr>data = None, valor = Some ''0,50''\<rparr> = Inl KeyError"
    by code_simp
  have d1: "dated ?S" unfolding dated_def by (simp only: list.set ball_simps p1 p2 p3) blast
  have d2: "\<not> dated ?bad" unfolding dated_def by (simp only: list.set ball_simps p4) simp
  have b: "by_month ?S = ?out" by code_simp
  from merge_identity [of ?S, THEN conjunct1] d1
  have m: "merge_poup_series ?S ?S = Inr (by_month ?S)"
    and c: "merge_poup_series_at ''2012-05'' ?S ?S = Inr (by_month ?S)" by blast+
  from merge_identity [of ?bad, THEN conjunct2] d2
  have r: "\<exists>e. merge_poup_series_at ''2012-06'' ?bad ?bad = Inl e" by blast
  from d1 b m c d2 r show ?thesis by (simp only: b) blast
qed

section \<open>The window of the new yield series\<close>

text \<open>
  \<^verbatim>\<open>update_poupanca\<close> fetches the new sub-series from 01/06/2012 to 25/09/2025 in steps of
  two years. \<open>poup_new_requests\<close> lists the windows (first and last day) of the requests that
  the loop of \<^verbatim>\<open>fetch_sgs_series_range\<close> then makes, in their order.
\<close>

definition poup_new_requests :: "(date \<times> date) list" where
  "poup_new_requests =
     [((2012, 6, 1), (2013, 12, 31)), ((2014, 1, 1), (2015, 12, 31)),
      ((2016, 1, 1), (2017, 12, 31)), ((2018, 1, 1), (2019, 12, 31)),
      ((2020, 1, 1), (2021, 12, 31)), ((2022, 1, 1), (2023, 12, 31)),
      ((2024, 1, 1), (2025, 9, 25))]"

lemma mk_date_first: "1 \<le> y \<Longrightarrow> y \<le> 9999 \<Longrightarrow> mk_date y 1 1 = Inr (y, 1, 1)"
  by (simp add: mk_date_def days_in_month_def)

lemma mk_date_last: "1 \<le> y \<Longrightarrow> y \<le> 9999 \<Longrightarrow> mk_date y 12 31 = Inr (y, 12, 31)"
  by (simp add: mk_date_def days_in_month_def)

lemma range_loop_step:
  assumes "y \<le> fst d1" "1 \<le> y" "y \<le> 9999" "1 \<le> min (y + s - 1) (fst d1)" "min (y + s - 1) (fst d1) \<le> 9999"
  shows "range_loop h d0 d1 s y acc
     = range_loop h d0 d1 s (y + s)
         (acc @ chunk_items (h (if (y, 1, 1) < d0 then d0 else (y, 1, 1))
                               (if (min (y + s - 1) (fst d1), 12, 31) > d1 then d1
                                else (min (y + s - 1) (fst d1), 12, 31))))"
  by (subst range_loop.simps)
     (simp add: assms mk_date_first [OF assms(2,3)] mk_date_last [OF assms(4,5)] Let_def)

lemma range_loop_stop: "\<not> y \<le> fst d1 \<Longrightarrow> range_loop h d0 d1 s y acc = Some (Inr acc)"
  by (subst range_loop.simps) simp

lemma range_loop_poup_new:
  "range_loop h (2012, 6, 1) (2025, 9, 25) 2 2012 []
     = Some (Inr (concat (map (\<lambda>(ini, fim). chunk_items (h ini fim)) poup_new_requests)))"
proof -
  have s1: "range_loop h (2012, 6, 1) (2025, 9, 25) 2 2012 []
      = range_loop h (2012, 6, 1) (2025, 9, 25) 2 2014 (chunk_items (h (2012, 6, 1) (2013, 12, 31)))"
    by (subst range_loop_step) simp_all
  have s: "range_loop h (2012, 6, 1) (2025, 9, 25) 2 y acc
      = range_loop h (2012, 6, 1) (2025, 9, 25) 2 (y + 2)
          (acc @ chunk_items (h (y, 1, 1) (y + 1, 12, 31)))"
    if "2014 \<le> y" "y \<le> 2022" for y acc
    using that by (subst range_loop_step) (simp_all add: add.commute)
  have s7: "range_loop h (2012, 6, 1) (2025, 9, 25) 2 2024 acc
      = Some (Inr (acc @ chunk_items (h (2024, 1, 1) (2025, 9, 25))))" for acc
    by (subst range_loop_step) (simp_all add: range_loop_stop)
  show ?thesis
    unfolding s1
    by (simp add: s [of 2014] s [of 2016] s [of 2018] s [of 2020] s [of 2022] s7 poup_new_requests_def)
qed

lemma poup_new_requests_window:
  "\<forall>(ini, fim) \<in> set poup_new_requests. (2012, 6, 1) \<le> ini \<and> ini \<le> fim \<and> fim \<le> (2025, 9, 25)"
  by (simp add: poup_new_requests_def)

lemma fetch_poup_new:
  "fetch_sgs_series_range hr serie ''01/06/2012'' ''25/09/2025'' 2
     = Some (sort_by_date (range_records
         (concat (map (\<lambda>(ini, fim). chunk_items (hr serie ini fim)) poup_new_requests))))"
proof -
  have s1: "strptime ''01/06/2012'' = Some (2012, 6, 1)" by code_simp
  have s2: "strptime ''25/09/2025'' = Some (2025, 9, 25)" by code_simp
  show ?thesis by (simp add: fetch_sgs_series_range_def s1 s2 range_loop_poup_new)
qed

lemma merge_poup_series_Inr:
  assumes "merge_poup_series items_old items_new = Inr items"
  shows "dated items_old \<and> dated items_new
     \<and> items = by_month ([it \<leftarrow> items_old. month_of it < (2012, 6)]
                         @ [it \<leftarrow> items_new. \<not> month_of it < (2012, 6)])"
proof -
  have d: "dated items_old \<and> dated items_new"
  proof (rule ccontr)
    assume "\<not> (dated items_old \<and> dated items_new)"
    then have "\<exists>e. merge_poup_series_at ''2012-06'' items_old items_new = Inl e"
      by (rule merge_poup_series_at_raises)
    with assms show False by (simp add: merge_poup_series_def)
  qed
  then have old: "dated items_old" and new: "dated items_new" by simp_all
  have v: "valid_month (2012, 6)" by (simp add: valid_month_def)
  have "merge_poup_series items_old items_new
      = Inr (by_month ([it \<leftarrow> items_old. month_of it < (2012, 6)]
                         @ [it \<leftarrow> items_new. \<not> month_of it < (2012, 6)]))"
    unfolding merge_poup_series_def cutoff_month_mkey merge_poup_series_at_eq [OF old new]
      kept_by_month [OF old new v] ..
  with assms d show ?thesis by simp
qed

lemma by_month_source:
  assumes "dated K" "r \<in> set (by_month K)"
  shows "\<exists>it \<in> set K. month_of it = month_of r"
proof -
  from assms(2) have "month_of r \<in> set (map month_of (by_month K))" by simp
  then have "month_of r \<in> set (sort (remdups (map month_of K)))"
    by (simp only: by_month_months [OF assms(1)])
  then show ?thesis by auto
qed

lemma month_le_of_date_le:
  fixes d :: date
  assumes "d \<le> (y, m, k)"
  shows "(fst d, fst (snd d)) \<le> (y, m)"
  using assms by (cases d) (auto simp: less_eq_prod_def less_prod_def)

lemma month_of_parse: "parse_date it = Inr d \<Longrightarrow> month_of it = (fst d, fst (snd d))"
  by (cases d) (simp add: month_of_def)


text \<open>
  Claim C10. The new sub-series is the result of seven requests, whose windows all lie between
  01/06/2012 and 25/09/2025; when \<^verbatim>\<open>start_year\<close> is after 2012 nothing is requested and
  the merged series is empty; the merged series does not depend on the clock. Whenever the
  merged series is built, and every record that one of the seven requests returns with a date
  that parses lies within the window of that request, every record of the merged series has
  a month that is not after September 2025.
\<close>

theorem poupanca_new_window:
  "fetch_sgs_series_range (http_range w) (SGS_SERIE_POUP_MENSAL cfg) ''01/06/2012'' ''25/09/2025'' 2
     = Some (sort_by_date (range_records
         (concat (map (\<lambda>(ini, fim). chunk_items (http_range w (SGS_SERIE_POUP_MENSAL cfg) ini fim))
                   poup_new_requests))))
   \<and> (\<forall>(ini, fim) \<in> set poup_new_requests.
         (2012, 6, 1) \<le> ini \<and> ini \<le> fim \<and> fim \<le> (2025, 9, 25))
   \<and> (2012 < start_year \<longrightarrow> poup_items cfg w start_year = Some (Inr []))
   \<and> poup_items cfg (w\<lparr>today_year := t, now := n\<rparr>) start_year = poup_items cfg w start_year
   \<and> (poup_items cfg w start_year = Some (Inr items)
        \<and> (\<forall>(ini, fim) \<in> set poup_new_requests.
             \<forall>it \<in> set (chunk_items (http_range w (SGS_SERIE_POUP_MENSAL cfg) ini fim)).
               \<forall>d. parse_date it = Inr d \<longrightarrow> ini \<le> d \<and> d \<le> fim)
        \<longrightarrow> (\<forall>r \<in> set items. valid_month (month_of r) \<and> month_of r \<le> (2025, 9)))"
proof (intro conjI impI)
  show "fetch_sgs_series_range (http_range w) (SGS_SERIE_POUP_MENSAL cfg) ''01/06/2012'' ''25/09/2025'' 2
     = Some (sort_by_date (range_records
         (concat (map (\<lambda>(ini, fim). chunk_items (http_range w (SGS_SERIE_POUP_MENSAL cfg) ini fim))
                   poup_new_requests))))"
    by (rule fetch_poup_new)
  show "\<forall>(ini, fim) \<in> set poup_new_requests.
         (2012, 6, 1) \<le> ini \<and> ini \<le> fim \<and> fim \<le> (2025, 9, 25)"
    by (rule poup_new_requests_window)
  show "poup_items cfg w start_year = Some (Inr [])" if "2012 < start_year"
    using that by (simp add: poup_items_def poup_fetch_def merge_poup_series_def merge_poup_series_at_def)
  have pf: "poup_fetch cfg (w\<lparr>today_year := t, now := n\<rparr>) start_year serie a b
      = poup_fetch cfg w start_year serie a b" for serie a b
    by (simp add: poup_fetch_def)
  show "poup_items cfg (w\<lparr>today_year := t, now := n\<rparr>) start_year = poup_items cfg w start_year"
    by (simp only: poup_items_def pf)
next
  assume a: "poup_items cfg w start_year = Some (Inr items)
        \<and> (\<forall>(ini, fim) \<in> set poup_new_requests.
             \<forall>it \<in> set (chunk_items (http_range w (SGS_SERIE_POUP_MENSAL cfg) ini fim)).
               \<forall>d. parse_date it = Inr d \<longrightarrow> ini \<le> d \<and> d \<le> fim)"
  define all_new where "all_new = concat (map (\<lambda>(ini, fim).
      chunk_items (http_range w (SGS_SERIE_POUP_MENSAL cfg) ini fim)) poup_new_requests)"
  from a have p: "poup_items cfg w start_year = Some (Inr items)" by (rule conjunct1)
  have inwin: "d \<le> (2025, 9, 25)" if "x \<in> set all_new" "parse_date x = Inr d" for x d
  proof -
    from that(1) obtain ini fim where q: "(ini, fim) \<in> set poup_new_requests"
      and x: "x \<in> set (chunk_items (http_range w (SGS_SERIE_POUP_MENSAL cfg) ini fim))"
      unfolding all_new_def by auto
    from a q x that(2) have "d \<le> fim" by blast
    moreover from poup_new_requests_window q have "fim \<le> (2025, 9, 25)" by blast
    ultimately show ?thesis by (rule order_trans)
  qed
  obtain items_old items_new where m: "merge_poup_series items_old items_new = Inr items"
    and src: "items_new = [] \<or> sort_by_date (range_records all_new) = Inr items_new"
  proof (cases "start_year \<le> 2012")
    case False
    with p have "merge_poup_series [] [] = Inr items"
      by (simp add: poup_items_def poup_fetch_def)
    then show ?thesis using that by blast
  next
    case True
    with p obtain new old where
      n: "fetch_sgs_series_range (http_range w) (SGS_SERIE_POUP_MENSAL cfg) ''01/06/2012'' ''25/09/2025'' 2
          = Some (Inr new)"
      and "merge_poup_series old new = Inr items"
      by (auto simp: poup_items_def poup_fetch_def split: option.splits sum.splits)
    moreover from n have "sort_by_date (range_records all_new) = Inr new"
      unfolding fetch_poup_new all_new_def by simp
    ultimately show ?thesis using that by blast
  qed
  from merge_poup_series_Inr [OF m] have old: "dated items_old" and new: "dated items_new"
    and it: "items = by_month ([it \<leftarrow> items_old. month_of it < (2012, 6)]
                         @ [it \<leftarrow> items_new. \<not> month_of it < (2012, 6)])" by simp_all
  define K where "K = [it \<leftarrow> items_old. month_of it < (2012, 6)]
                         @ [it \<leftarrow> items_new. \<not> month_of it < (2012, 6)]"
  have dK: "dated K" unfolding K_def using old new by (simp add: dated_append dated_filter)
  have newb: "month_of x \<le> (2025, 9)" if "x \<in> set items_new" for x
  proof -
    from that src have s: "sort_by_date (range_records all_new) = Inr items_new" by auto
    from sorted_records [OF range_out_deduped s]
    have "deduped_by_date all_new items_new" by simp
    from deduped_by_date_source [OF this that] obtain y0 where y0: "y0 \<in> set all_new"
      and dy: "data y0 = data x" by blast
    from new that obtain d where d: "parse_date x = Inr d" unfolding dated_def by blast
    then have "parse_date y0 = Inr d" using parse_date_cong [OF dy] by simp
    from inwin [OF y0 this] have "(fst d, fst (snd d)) \<le> (2025, 9)" by (rule month_le_of_date_le)
    then show ?thesis by (simp only: month_of_parse [OF d])
  qed
  show "\<forall>r \<in> set items. valid_month (month_of r) \<and> month_of r \<le> (2025, 9)"
  proof
    fix r assume "r \<in> set items"
    then have r: "r \<in> set (by_month K)" by (simp add: it K_def)
    from by_month_source [OF dK r] obtain x where x: "x \<in> set K" and mx: "month_of x = month_of r"
      by blast
    from dated_valid [OF dK x] have v: "valid_month (month_of r)" by (simp add: mx)
    from x have "month_of x < (2012, 6) \<or> x \<in> set items_new" unfolding K_def by auto
    then have "month_of x \<le> (2025, 9)"
    proof
      assume "month_of x < (2012, 6)"
      moreover have "(2012, 6) \<le> (2025 :: int, 9 :: int)" by simp
      ultimately show ?thesis by (meson less_le_trans less_imp_le)
    next
      assume "x \<in> set items_new"
      then show ?thesis by (rule newb)
    qed
    with v show "valid_month (month_of r) \<and> month_of r \<le> (2025, 9)" by (simp add: mx)
  qed
qed

theorem poupanca_new_window_witness:
  "poup_items CONFIG
     \<lparr> http_year = (\<lambda>s y. None),
       http_range = (\<lambda>s a b. if s = ''196'' \<and> a = (2024, 1, 1)
                               then Some [\<lparr>data = Some ''01/09/2025'', valor = Some ''0,50''\<rparr>]
                               else if s = ''7828'' \<and> a = (2011, 1, 1)
                               then Some [\<lparr>data = Some ''02/05/2012'', valor = Some ''0,60''\<rparr>]
                               else None),
       today_year = 2030, now = (2030, 1, 1, 0, 0, 0),
       daily = (\<lambda>v. v), compound = (\<lambda>l. Fin 0), fmt6 = (\<lambda>v. ''0''),
       dirs_ok = True, backup_dirs_ok = True, backup_copy = Copied, serialize_raises = False,
       tmp_write = Written, restore_copy = Copied \<rparr> 2000
     = Some (Inr [\<lparr>data = Some ''01/05/2012'', valor = Some ''0,60''\<rparr>,
                  \<lparr>data = Some ''01/09/2025'', valor = Some ''0,50''\<rparr>])
   \<and> parse_date \<lparr>data = Some ''01/09/2025'', valor = Some ''0,50''\<rparr> = Inr (2025, 9, 1)
   \<and> (2024, 1, 1) \<le> (2025 :: int, 9 :: int, 1 :: int) \<and> (2025 :: int, 9 :: int, 1 :: int) \<le> (2025, 9, 25)
   \<and> month_of \<lparr>data = Some ''01/05/2012'', valor = Some ''0,60''\<rparr> \<le> (2025, 9)
   \<and> month_of \<lparr>data = Some ''01/09/2025'', valor = Some ''0,50''\<rparr> \<le> (2025, 9)
   \<and> poup_items CONFIG
     \<lparr> http_year = (\<lambda>s y. None),
       http_range = (\<lambda>s a b. Some [\<lparr>data = Some ''01/01/2030'', valor = Some ''0,50''\<rparr>]),
       today_year = 2030, now = (2030, 1, 1, 0, 0, 0),
       daily = (\<lambda>v. v), compound = (\<lambda>l. Fin 0), fmt6 = (\<lambda>v. ''0''),
       dirs_ok = True, backup_dirs_ok = True, backup_copy = Copied, serialize_raises = False,
       tmp_write = Written, restore_copy = Copied \<rparr> 2013
     = Some (Inr [])"
proof -
  define w0 :: world where "w0 =
     \<lparr> http_year = (\<lambda>s y. None),
       http_range = (\<lambda>s a b. if s = ''196'' \<and> a = (2024, 1, 1)
                               then Some [\<lparr>data = Some ''01/09/2025'', valor = Some ''0,50''\<rparr>]
                               else if s = ''7828'' \<and> a = (2011, 1, 1)
                               then Some [\<lparr>data = Some ''02/05/2012'', valor = Some ''0,60''\<rparr>]
                               else None),
       today_year = 2030, now = (2030, 1, 1, 0, 0, 0),
       daily = (\<lambda>v. v), compound = (\<lambda>l. Fin 0), fmt6 = (\<lambda>v. ''0''),
       dirs_ok = True, backup_dirs_ok = True, backup_copy = Copied, serialize_raises = False,
       tmp_write = Written, restore_copy = Copied \<rparr>"
  define w1 :: world where "w1 =
     \<lparr> http_year = (\<lambda>s y. None),
       http_range = (\<lambda>s a b. Some [\<lparr>data = Some ''01/01/2030'', valor = Some ''0,50''\<rparr>]),
       today_year = 2030, now = (2030, 1, 1, 0, 0, 0),
       daily = (\<lambda>v. v), compound = (\<lambda>l. Fin 0), fmt6 = (\<lambda>v. ''0''),
       dirs_ok = True, backup_dirs_ok = True, backup_copy = Copied, serialize_raises = False,
       tmp_write = Written, restore_copy = Copied \<rparr>"
  let ?out = "[\<lparr>data = Some ''01/05/2012'', valor = Some ''0,60''\<rparr>,
                  \<lparr>data = Some ''01/09/2025'', valor = Some ''0,50''\<rparr>]"
  have h: "poup_items CONFIG w0 2000 = Some (Inr ?out)" unfolding w0_def by code_simp
  have p: "parse_date \<lparr>data = Some ''01/09/2025'', valor = Some ''0,50''\<rparr> = Inr (2025, 9, 1)"
    by code_simp
  have s: "SGS_SERIE_POUP_MENSAL CONFIG = ''196''" by (simp add: CONFIG_def)
  have hon: "\<forall>(ini, fim) \<in> set poup_new_requests.
             \<forall>it \<in> set (chunk_items (http_range w0 (SGS_SERIE_POUP_MENSAL CONFIG) ini fim)).
               \<forall>d. parse_date it = Inr d \<longrightarrow> ini \<le> d \<and> d \<le> fim"
    unfolding s by (simp add: poup_new_requests_def w0_def chunk_items_def p)
  note t = poupanca_new_window [where w = w0 and cfg = CONFIG and start_year = 2000 and items = ?out]
  from t h hon have b: "\<forall>r \<in> set ?out. valid_month (month_of r) \<and> month_of r \<le> (2025, 9)"
    by blast
  note t1 = poupanca_new_window [where w = w1 and cfg = CONFIG and start_year = 2013]
  have "(2012 :: int) < 2013" by simp
  with t1 have e: "poup_items CONFIG w1 2013 = Some (Inr [])" by blast
  have c: "(2024, 1, 1) \<le> (2025 :: int, 9 :: int, 1 :: int) \<and> (2025 :: int, 9 :: int, 1 :: int) \<le> (2025, 9, 25)"
    by simp
  from b have b1: "month_of \<lparr>data = Some ''01/05/2012'', valor = Some ''0,60''\<rparr> \<le> (2025, 9)"
    and b2: "month_of \<lparr>data = Some ''01/09/2025'', valor = Some ''0,50''\<rparr> \<le> (2025, 9)"
    by (simp_all only: list.set ball_simps)
  from h p c b1 b2 e show ?thesis unfolding w0_def w1_def by blast
qed

end
